theory Spec2Isabelle
  imports Main "HOL-Library.AList"
begin

section \<open>JavaScript values\<close>

text \<open>
  The client receives arbitrary JSON from its callers and inspects it dynamically, so the
  embedding works over one value type.  \<open>JUndefined\<close> is JavaScript's \<^verbatim>\<open>undefined\<close>: it is what
  a missing property reads as, and what \<^verbatim>\<open>cleanObject\<close> returns for a value that is to be
  dropped.  Numbers are integers; where its text is asked for, an integer stands for the
  double nearest to it.  An object is the list of its own properties in the order
  in which \<^verbatim>\<open>Object.entries\<close> enumerates them, which for the property names of this
  interface is the order of insertion; defining a property is \<open>AList.update\<close>, which
  overwrites in place or appends.  The prototype of an object is not part of a value: a value
  is what \<^verbatim>\<open>Object.entries\<close> enumerates and \<^verbatim>\<open>JSON.stringify\<close> transmits.  Strings are
  sequences of 8-bit code units.
\<close>

datatype jv = JUndefined | JNull | JBool bool | JNum int | JStr string
  | JArr "jv list" | JObj "(string \<times> jv) list"

type_synonym obj = "(string \<times> jv) list"

text \<open>\<^verbatim>\<open>if (v)\<close>, \<^verbatim>\<open>!v\<close>, \<^verbatim>\<open>a || b\<close>: JavaScript's ToBoolean.\<close>

fun truthy :: "jv \<Rightarrow> bool" where
  "truthy JUndefined = False"
| "truthy JNull = False"
| "truthy (JBool b) = b"
| "truthy (JNum n) = (n \<noteq> 0)"
| "truthy (JStr s) = (s \<noteq> [])"
| "truthy (JArr xs) = True"
| "truthy (JObj es) = True"

text \<open>
  \<^verbatim>\<open>v.key\<close> on a value that is neither null nor undefined, for the data keys the client reads:
  an own property of an object, \<^verbatim>\<open>undefined\<close> on anything else.  What an object would
  inherit from a prototype put in place by an assignment to \<^verbatim>\<open>__proto__\<close> is not found.
\<close>

fun get :: "jv \<Rightarrow> string \<Rightarrow> jv" where
  "get (JObj es) key = (case map_of es key of Some v \<Rightarrow> v | None \<Rightarrow> JUndefined)"
| "get v key = JUndefined"

text \<open>
  \<^verbatim>\<open>ob[key] = v\<close> on an object that began as the literal \<^verbatim>\<open>{}\<close>.  An own property is
  overwritten in place or appended.  The key \<^verbatim>\<open>__proto__\<close> is the exception: such an object
  inherits it as an accessor, so the assignment runs the setter, which replaces the
  prototype when \<open>v\<close> is an object or \<^verbatim>\<open>null\<close> and does nothing otherwise.  Either way no own
  property is created.
\<close>

definition setProperty :: "string \<Rightarrow> jv \<Rightarrow> obj \<Rightarrow> obj" where
  "setProperty key v ob = (if key = ''__proto__'' then ob else AList.update key v ob)"

text \<open>\<^verbatim>\<open>typeof v === 'object' && v !== null\<close> holds of arrays and objects.\<close>

fun isObject :: "jv \<Rightarrow> bool" where
  "isObject (JArr xs) = True"
| "isObject (JObj es) = True"
| "isObject v = False"

text \<open>The white space that \<^verbatim>\<open>String.prototype.trim\<close> strips, among the 8-bit code units.\<close>

definition js_whitespace :: "char \<Rightarrow> bool" where
  "js_whitespace c = ((of_char c :: nat) \<in> {9, 10, 11, 12, 13, 32, 160})"

definition trim :: "string \<Rightarrow> string" where
  "trim s = rev (dropWhile js_whitespace (rev (dropWhile js_whitespace s)))"

definition lower_char :: "char \<Rightarrow> char" where
  "lower_char c = (let n = (of_char c :: nat) in
     if (65 \<le> n \<and> n \<le> 90) \<or> (192 \<le> n \<and> n \<le> 222 \<and> n \<noteq> 215)
     then char_of (n + 32) else c)"

definition toLowerCase :: "string \<Rightarrow> string" where
  "toLowerCase s = map lower_char s"

definition startsWith :: "string \<Rightarrow> string \<Rightarrow> bool" where
  "startsWith s p = (take (length p) s = p)"

text \<open>The decimal digits of a natural number, as a template literal writes an array index.\<close>

fun digit_char :: "nat \<Rightarrow> char" where
  "digit_char n = char_of (48 + n mod 10)"

fun show_nat :: "nat \<Rightarrow> string" where
  "show_nat n = (if n < 10 then [digit_char n] else show_nat (n div 10) @ [digit_char n])"

declare show_nat.simps [simp del]

subsection \<open>Numbers\<close>

text \<open>
  What \<^verbatim>\<open>Number(v)\<close> gives is a value of IEEE 754 double precision: \<^verbatim>\<open>NaN\<close>, an infinity
  (\<open>True\<close> for the negative one) or a finite value \<open>k \<times> 2\<^sup>t\<close>.
\<close>

datatype number = NaN | Infinite bool | Finite int int

function bitLength :: "int \<Rightarrow> int" where
  "bitLength n = (if n \<le> 0 then 0 else 1 + bitLength (n div 2))"
  by pat_completeness auto
termination
  by (relation "measure nat") auto

declare bitLength.simps [simp del]

text \<open>\<open>p / q \<ge> 2\<^sup>e\<close>, and \<open>n / d\<close> rounded to the nearest integer, a tie to the even one.\<close>

definition atLeastPower :: "int \<Rightarrow> int \<Rightarrow> int \<Rightarrow> bool" where
  "atLeastPower p q e = (if 0 \<le> e then q * 2 ^ nat e \<le> p else q \<le> p * 2 ^ nat (- e))"

definition roundHalfEven :: "int \<Rightarrow> int \<Rightarrow> int" where
  "roundHalfEven n d =
     (let k = n div d; r = n mod d
      in if 2 * r < d then k else if d < 2 * r then k + 1 else if even k then k else k + 1)"

text \<open>
  The double nearest to \<open>p / q\<close>, for \<open>p \<ge> 0\<close> and \<open>q > 0\<close>: 53 significant bits, the least
  exponent that of the subnormal numbers, a tie to the even significand, and infinity from
  \<open>2\<^sup>1\<^sup>0\<^sup>2\<^sup>4\<close> on.
\<close>

definition toDouble :: "int \<Rightarrow> int \<Rightarrow> number" where
  "toDouble p q =
     (let e0 = bitLength p - bitLength q;
          e = (if atLeastPower p q e0 then e0 else e0 - 1);
          t = max e (- 1022) - 52;
          k = (if 0 \<le> t then roundHalfEven p (q * 2 ^ nat t)
               else roundHalfEven (p * 2 ^ nat (- t)) q)
      in if k = 0 then Finite 0 0
         else if k = 2 ^ 53 then (if 971 \<le> t then Infinite False else Finite (2 ^ 52) (t + 1))
         else if 971 < t then Infinite False
         else Finite k t)"

definition negated :: "number \<Rightarrow> number" where
  "negated x = (case x of NaN \<Rightarrow> NaN | Infinite negative \<Rightarrow> Infinite (\<not> negative)
                | Finite k t \<Rightarrow> Finite (- k) t)"

text \<open>\<^verbatim>\<open>x < n\<close> and \<open>x > n\<close> for an integer \<open>n\<close>; a comparison with \<^verbatim>\<open>NaN\<close> is false.\<close>

definition numberLess :: "number \<Rightarrow> int \<Rightarrow> bool" where
  "numberLess x n =
     (case x of
        NaN \<Rightarrow> False
      | Infinite negative \<Rightarrow> negative
      | Finite k t \<Rightarrow> if 0 \<le> t then k * 2 ^ nat t < n else k < n * 2 ^ nat (- t))"

definition numberGreater :: "number \<Rightarrow> int \<Rightarrow> bool" where
  "numberGreater x n =
     (case x of
        NaN \<Rightarrow> False
      | Infinite negative \<Rightarrow> \<not> negative
      | Finite k t \<Rightarrow> if 0 \<le> t then n < k * 2 ^ nat t else n * 2 ^ nat (- t) < k)"

text \<open>
  \<^verbatim>\<open>String(n)\<close> for an integer \<open>n\<close>, as in a template literal: the least number \<open>k\<close> of
  digits \<open>s\<close> such that \<open>s \<times> 10\<^sup>n\<^sup>-\<^sup>k\<close> still denotes the same double, then of those the one
  nearest to it, written out with zeros up to 21 digits and with an exponent beyond.  Below
  \<open>2\<^sup>5\<^sup>3\<close> these are the digits of the integer itself.
\<close>

definition integerValue :: "number \<Rightarrow> int" where
  "integerValue x =
     (case x of
        Finite k t \<Rightarrow> if 0 \<le> t then k * 2 ^ nat t else k div 2 ^ nat (- t)
      | _ \<Rightarrow> 0)"

function digitCount :: "int \<Rightarrow> int" where
  "digitCount v = (if v < 10 then 1 else 1 + digitCount (v div 10))"
  by pat_completeness auto
termination
  by (relation "measure nat") auto

declare digitCount.simps [simp del]

definition digitCandidates :: "int \<Rightarrow> int \<Rightarrow> int \<Rightarrow> (int \<times> int) list" where
  "digitCandidates v n k =
     filter (\<lambda>(s, n'). 10 ^ nat (k - 1) \<le> s \<and> s < 10 ^ nat k \<and>
                         toDouble (s * 10 ^ nat (n' - k)) 1 = toDouble v 1)
       ([(v div 10 ^ nat (n - k), n), (v div 10 ^ nat (n - k) + 1, n)] @
        (if k = 1 then [(1, n + 1)] else []))"

definition closer :: "int \<Rightarrow> int \<Rightarrow> int \<times> int \<Rightarrow> int \<times> int \<Rightarrow> int \<times> int" where
  "closer v k a b =
     (let da = \<bar>fst a * 10 ^ nat (snd a - k) - v\<bar>;
          db = \<bar>fst b * 10 ^ nat (snd b - k) - v\<bar>
      in if db < da \<or> (db = da \<and> even (fst b) \<and> odd (fst a)) then b else a)"

function shortestDigits :: "int \<Rightarrow> int \<Rightarrow> int \<Rightarrow> int \<times> int \<times> int" where
  "shortestDigits v n k =
     (case digitCandidates v n k of
        c # cs \<Rightarrow> (case foldl (closer v k) c cs of (s, n') \<Rightarrow> (s, n', k))
      | [] \<Rightarrow> if n \<le> k then (v, n, n) else shortestDigits v n (k + 1))"
  by pat_completeness auto
termination
  by (relation "measure (\<lambda>(v, n, k). nat (n - k))") auto

declare shortestDigits.simps [simp del]

definition numberToString :: "int \<Rightarrow> string" where
  "numberToString i =
     (case toDouble \<bar>i\<bar> 1 of
        Infinite negative \<Rightarrow> (if i < 0 then ''-Infinity'' else ''Infinity'')
      | x \<Rightarrow>
          (let v = integerValue x;
               (s, n, k) = shortestDigits v (digitCount v) 1;
               digits = show_nat (nat s);
               shown = (if n \<le> 21 then digits @ replicate (nat (n - k)) (CHR ''0'')
                       else take 1 digits @ (if k = 1 then [] else CHR ''.'' # drop 1 digits) @
                            ''e+'' @ show_nat (nat (n - 1)))
           in if i < 0 then CHR ''-'' # shown else shown))"

subsection \<open>Coercions\<close>

text \<open>
  \<^verbatim>\<open>String(v)\<close>, as template literals and \<^verbatim>\<open>RegExp.prototype.test\<close> apply it to their argument.
\<close>

definition intercalate :: "string \<Rightarrow> string list \<Rightarrow> string" where
  "intercalate sep parts =
     (case parts of [] \<Rightarrow> [] | p # ps \<Rightarrow> foldl (\<lambda>acc q. acc @ sep @ q) p ps)"

fun jsToString :: "jv \<Rightarrow> string" where
  "jsToString JUndefined = ''undefined''"
| "jsToString JNull = ''null''"
| "jsToString (JBool b) = (if b then ''true'' else ''false'')"
| "jsToString (JNum n) = numberToString n"
| "jsToString (JStr s) = s"
| "jsToString (JArr xs) =
     intercalate '','' (map (\<lambda>x. if x = JNull \<or> x = JUndefined then [] else jsToString x) xs)"
| "jsToString (JObj es) = ''[object Object]''"

definition isDigit :: "char \<Rightarrow> bool" where
  "isDigit c = (48 \<le> (of_char c :: nat) \<and> (of_char c :: nat) \<le> 57)"

definition digitValue :: "char \<Rightarrow> int" where
  "digitValue c =
     (let n = (of_char c :: nat) in
      if 48 \<le> n \<and> n \<le> 57 then int n - 48
      else if 97 \<le> n \<and> n \<le> 102 then int n - 87
      else int n - 55)"

definition isHexDigit :: "char \<Rightarrow> bool" where
  "isHexDigit c =
     (let n = (of_char c :: nat) in
      (48 \<le> n \<and> n \<le> 57) \<or> (97 \<le> n \<and> n \<le> 102) \<or> (65 \<le> n \<and> n \<le> 70))"

definition digitsValue :: "int \<Rightarrow> string \<Rightarrow> int" where
  "digitsValue radix ds = foldl (\<lambda>acc d. acc * radix + digitValue d) 0 ds"

text \<open>
  \<^verbatim>\<open>parseInt(s)\<close> and \<^verbatim>\<open>parseInt(s, 10)\<close>: leading white space, a sign, then the longest run of
  digits; without a radix a \<^verbatim>\<open>0x\<close> prefix selects base 16.  \<open>None\<close> is \<^verbatim>\<open>NaN\<close>.
\<close>

definition parseInt :: "bool \<Rightarrow> string \<Rightarrow> int option" where
  "parseInt radix10 s =
     (let s1 = dropWhile js_whitespace s;
          negative = startsWith s1 ''-'';
          s2 = (if startsWith s1 ''-'' \<or> startsWith s1 ''+'' then drop 1 s1 else s1);
          hex = (\<not> radix10 \<and> (startsWith s2 ''0x'' \<or> startsWith s2 ''0X''));
          s3 = (if hex then drop 2 s2 else s2);
          ds = takeWhile (if hex then isHexDigit else isDigit) s3;
          n = digitsValue (if hex then 16 else 10) ds
      in if ds = [] then None else Some (if negative then - n else n))"

text \<open>
  \<^verbatim>\<open>Number(s)\<close> for a string, which a relational comparison applies to a non-numeric
  operand: white space around a numeric literal, which is a decimal literal with an optional
  sign, fraction and exponent, a signed \<^verbatim>\<open>Infinity\<close>, or an unsigned hexadecimal, octal or
  binary integer; the empty string is 0 and any other text is \<^verbatim>\<open>NaN\<close>.
\<close>

definition unsignedDecimal :: "string \<Rightarrow> (int \<times> int) option" where
  "unsignedDecimal u =
     (let integerPart = takeWhile isDigit u;
          r1 = dropWhile isDigit u;
          fraction = (if startsWith r1 ''.'' then takeWhile isDigit (drop 1 r1) else []);
          r2 = (if startsWith r1 ''.'' then dropWhile isDigit (drop 1 r1) else r1);
          exponent =
            (if r2 = [] then Some 0
             else if startsWith r2 ''e'' \<or> startsWith r2 ''E'' then
               (let r3 = drop 1 r2;
                    ds = (if startsWith r3 ''-'' \<or> startsWith r3 ''+'' then drop 1 r3 else r3)
                in if ds \<noteq> [] \<and> list_all isDigit ds
                   then Some (if startsWith r3 ''-'' then - digitsValue 10 ds
                              else digitsValue 10 ds)
                   else None)
             else None)
      in if integerPart = [] \<and> fraction = [] then None
         else (case exponent of
                 None \<Rightarrow> None
               | Some e \<Rightarrow> Some (digitsValue 10 (integerPart @ fraction), e - int (length fraction))))"

definition radixLiteral :: "int \<Rightarrow> string \<Rightarrow> number" where
  "radixLiteral radix ds =
     (if ds \<noteq> [] \<and> list_all (\<lambda>d. isHexDigit d \<and> digitValue d < radix) ds
      then toDouble (digitsValue radix ds) 1 else NaN)"

definition stringToNumber :: "string \<Rightarrow> number" where
  "stringToNumber s =
     (let t = trim s;
          prefix = toLowerCase (take 2 t);
          u = (if startsWith t ''-'' \<or> startsWith t ''+'' then drop 1 t else t);
          signed = (\<lambda>x. if startsWith t ''-'' then negated x else x)
      in if t = [] then Finite 0 0
         else if prefix = ''0x'' then radixLiteral 16 (drop 2 t)
         else if prefix = ''0o'' then radixLiteral 8 (drop 2 t)
         else if prefix = ''0b'' then radixLiteral 2 (drop 2 t)
         else if u = ''Infinity'' then signed (Infinite False)
         else (case unsignedDecimal u of
                 None \<Rightarrow> NaN
               | Some (m, e) \<Rightarrow>
                   signed (if 0 \<le> e then toDouble (m * 10 ^ nat e) 1
                           else toDouble m (10 ^ nat (- e)))))"

text \<open>\<^verbatim>\<open>Number(v)\<close>.  An array or object is first converted to its text.\<close>

fun jsNumber :: "jv \<Rightarrow> number" where
  "jsNumber JUndefined = NaN"
| "jsNumber JNull = Finite 0 0"
| "jsNumber (JBool b) = Finite (if b then 1 else 0) 0"
| "jsNumber (JNum n) = Finite n 0"
| "jsNumber (JStr s) = stringToNumber s"
| "jsNumber v = stringToNumber (jsToString v)"

text \<open>\<^verbatim>\<open>a < n\<close> and \<^verbatim>\<open>a > n\<close> against an integer.\<close>

definition jsLess :: "jv \<Rightarrow> int \<Rightarrow> bool" where
  "jsLess a n = numberLess (jsNumber a) n"

definition jsGreater :: "jv \<Rightarrow> int \<Rightarrow> bool" where
  "jsGreater a n = numberGreater (jsNumber a) n"

text \<open>\<^verbatim>\<open>v.length\<close> on a value that is neither null nor undefined.\<close>

fun jsLength :: "jv \<Rightarrow> jv" where
  "jsLength (JStr s) = JNum (int (length s))"
| "jsLength (JArr xs) = JNum (int (length xs))"
| "jsLength (JObj es) = get (JObj es) ''length''"
| "jsLength v = JUndefined"

text \<open>\<^verbatim>\<open>v?.[key]\<close>: optional chaining reads \<^verbatim>\<open>undefined\<close> through null and undefined.\<close>

definition optGet :: "jv \<Rightarrow> string \<Rightarrow> jv" where
  "optGet v key = (if v = JNull \<or> v = JUndefined then JUndefined else get v key)"

text \<open>\<^verbatim>\<open>s.split(sep)\<close> for a two-character separator, as used on the \<^verbatim>\<open>?.\<close> paths.\<close>

fun split2 :: "char \<Rightarrow> char \<Rightarrow> string \<Rightarrow> string list" where
  "split2 a b (c # d # cs) =
     (if c = a \<and> d = b then [] # split2 a b cs
      else (case split2 a b (d # cs) of p # ps \<Rightarrow> (c # p) # ps | [] \<Rightarrow> [[c]]))"
| "split2 a b cs = [cs]"

section \<open>ObjectSanitizer: \<^verbatim>\<open>isEmptyValue\<close> and \<^verbatim>\<open>cleanObject\<close> (trust-api.ts)\<close>

fun isEmptyValue :: "jv \<Rightarrow> bool" where
  "isEmptyValue JUndefined = True"
| "isEmptyValue JNull = True"
| "isEmptyValue (JStr s) =
     (let trimmed = toLowerCase (trim s) in
      trimmed = '''' \<or> trimmed = ''n/a'' \<or> trimmed = ''na'' \<or> trimmed = ''null'' \<or>
      trimmed = ''none'')"
| "isEmptyValue (JObj es) = (length es = 0)"
| "isEmptyValue v = False"

text \<open>
  The array branch is \<^verbatim>\<open>obj.map(...).filter(...)\<close> and always returns an array.  The object
  branch is the \<^verbatim>\<open>for ... of Object.entries(obj)\<close> loop, a left fold that builds \<open>cleaned\<close>
  from \<^verbatim>\<open>{}\<close> by \<^verbatim>\<open>cleaned[key] = cleanedValue\<close>.
\<close>

fun cleanObject :: "jv \<Rightarrow> jv" where
  "cleanObject (JArr xs) = JArr (filter (\<lambda>item. \<not> isEmptyValue item) (map cleanObject xs))"
| "cleanObject (JObj es) =
     (let cleaned = foldl (\<lambda>cleaned (key, val).
                       let cleanedValue = cleanObject val in
                       if \<not> isEmptyValue cleanedValue then setProperty key cleanedValue cleaned
                       else cleaned) [] es
      in if length cleaned > 0 then JObj cleaned else JUndefined)"
| "cleanObject v = (if isEmptyValue v then JUndefined else v)"

text \<open>The body of the object loop, named so that lemmas about the fold can refer to it.\<close>

definition keepCleaned :: "(jv \<Rightarrow> jv) \<Rightarrow> obj \<Rightarrow> string \<times> jv \<Rightarrow> obj" where
  "keepCleaned c = (\<lambda>cleaned (key, val).
                       let cleanedValue = c val in
                       if \<not> isEmptyValue cleanedValue then setProperty key cleanedValue cleaned
                       else cleaned)"

text \<open>The placeholder strings, as the set the trimmed, lower-cased text is compared with.\<close>

definition placeholder :: "string \<Rightarrow> bool" where
  "placeholder s = (toLowerCase (trim s) \<in> set ['''', ''n/a'', ''na'', ''null'', ''none''])"

section \<open>FieldNormalizer and RequestCanonicalizer: \<^verbatim>\<open>buildRequest\<close> (trust-api.ts)\<close>

text \<open>
  \<^verbatim>\<open>normalizeField\<close>.  Every branch for an object or array returns the value itself; the tests
  on \<^verbatim>\<open>value.raw\<close> and its siblings are kept as the source writes them.
\<close>

definition normalizeField :: "string \<Rightarrow> jv \<Rightarrow> jv" where
  "normalizeField fieldType v =
     (if isObject v then
        (if fieldType = ''email'' \<and> (truthy (get v ''raw'') \<or> truthy (get v ''address'')) then v
         else if fieldType = ''phone'' \<and> (truthy (get v ''raw'') \<or> truthy (get v ''number'')) then v
         else if fieldType = ''address'' \<and>
                 (truthy (get v ''raw'') \<or> truthy (get v ''country'') \<or> truthy (get v ''city''))
              then v
         else if fieldType = ''device'' \<and> (truthy (get v ''ip'') \<or> truthy (get v ''fingerprint''))
              then v
         else v)
      else (case v of
              JStr s \<Rightarrow>
                (if fieldType = ''email'' then JObj [(''raw'', v)]
                 else if fieldType = ''phone'' then JObj [(''raw'', v)]
                 else if fieldType = ''address'' then JObj [(''raw'', v)]
                 else if fieldType = ''name'' then JObj [(''raw'', v)]
                 else if fieldType = ''device'' then JObj [(''ip'', v)]
                 else v)
            | _ \<Rightarrow> v))"

text \<open>
  \<^verbatim>\<open>Object.entries\<close> of a group: the properties of an object; for an array, its elements
  under their decimal indices.  \<^verbatim>\<open>normalizeGroupFields\<close> builds its result from \<^verbatim>\<open>{}\<close> by
  \<^verbatim>\<open>normalized[key] = ...\<close>.
\<close>

fun entries :: "jv \<Rightarrow> obj" where
  "entries (JObj es) = es"
| "entries (JArr xs) = map (\<lambda>i. (show_nat i, xs ! i)) [0..<length xs]"
| "entries v = []"

definition normalizeGroupFields :: "jv \<Rightarrow> jv" where
  "normalizeGroupFields grp =
     (if \<not> isObject grp then grp
      else JObj (foldl (\<lambda>normalized (key, val). setProperty key (normalizeField key val) normalized)
                   [] (entries grp)))"

definition dataFields :: "string list" where
  "dataFields = [''name'', ''email'', ''phone'', ''address'']"

definition otherFields :: "string list" where
  "otherFields = [''device'', ''browser'', ''card'', ''order'', ''payment'', ''session'',
                  ''person'', ''personal_identifier'', ''locale'', ''custom'', ''page'']"

text \<open>\<^verbatim>\<open>const hasAccountGroup = data.account !== undefined\<close>\<close>

definition hasAccountGroup :: "obj \<Rightarrow> bool" where
  "hasAccountGroup data = (get (JObj data) ''account'' \<noteq> JUndefined)"

text \<open>
  The pseudo-JSON decoding of \<^verbatim>\<open>sender\<close>, \<^verbatim>\<open>recipient\<close> and \<^verbatim>\<open>metadata\<close>.  \<^verbatim>\<open>JSON.parse\<close> is the
  platform's; it is the parameter \<open>parse\<close>, with \<open>None\<close> for a thrown \<^verbatim>\<open>SyntaxError\<close>.
\<close>

definition parseSmuggled :: "(string \<Rightarrow> jv option) \<Rightarrow> jv \<Rightarrow> jv" where
  "parseSmuggled parse v =
     (case v of
        JStr s \<Rightarrow>
          (let trimmed = trim s in
           if startsWith trimmed ''{'' \<or> startsWith trimmed ''['' then
             (let jsonCompatible = map (\<lambda>c. if c = CHR 0x27 then CHR 0x22 else c) trimmed in
              case parse jsonCompatible of Some parsed \<Rightarrow> parsed | None \<Rightarrow> v)
           else v)
      | _ \<Rightarrow> v)"

text \<open>
  One iteration of the loop over \<^verbatim>\<open>Object.entries(data)\<close>.  The loop state is the request
  under construction and the collected \<open>accountFields\<close>.
\<close>

definition processField ::
  "(string \<Rightarrow> jv option) \<Rightarrow> bool \<Rightarrow> obj \<times> obj \<Rightarrow> string \<times> jv \<Rightarrow> obj \<times> obj" where
  "processField parse hasAccount = (\<lambda>(request, accountFields) (key, val).
     if key = ''action'' \<or> key = ''key'' then (request, accountFields)
     else if isEmptyValue val then (request, accountFields)
     else if key = ''sender'' \<or> key = ''recipient'' \<or> key = ''metadata'' then
       (let parsedValue = parseSmuggled parse val;
            parsedValue = (if isObject parsedValue then cleanObject parsedValue else parsedValue)
        in if \<not> isEmptyValue parsedValue
           then (AList.update key parsedValue request, accountFields)
           else (request, accountFields))
     else if key = ''account'' \<or> key = ''billing'' \<or> key = ''shipping'' then
       (let normalized = normalizeGroupFields val;
            cleaned = cleanObject normalized
        in if \<not> isEmptyValue cleaned
           then (AList.update key cleaned request, accountFields)
           else (request, accountFields))
     else if key \<in> set dataFields \<and> \<not> hasAccount then
       (let normalized = normalizeField key val
        in if \<not> isEmptyValue normalized
           then (request, AList.update key normalized accountFields)
           else (request, accountFields))
     else if key \<in> set (dataFields @ otherFields) then
       (let normalized = normalizeField key val
        in if \<not> isEmptyValue normalized
           then (AList.update key normalized request, accountFields)
           else (request, accountFields))
     else (request, accountFields))"

text \<open>\<^verbatim>\<open>if (data.flag !== undefined) request.flag = data.flag\<close>\<close>

definition copyFlag :: "obj \<Rightarrow> string \<Rightarrow> obj \<Rightarrow> obj" where
  "copyFlag data flag request =
     (if get (JObj data) flag \<noteq> JUndefined then AList.update flag (get (JObj data) flag) request
      else request)"

definition defaultAction :: jv where
  "defaultAction = JObj [(''type'', JStr ''purchase'')]"

definition buildRequest :: "(string \<Rightarrow> jv option) \<Rightarrow> obj \<Rightarrow> obj" where
  "buildRequest parse data =
     (let request = [(''action'', if truthy (get (JObj data) ''action'')
                                  then get (JObj data) ''action'' else defaultAction)];
          (request, accountFields) =
             foldl (processField parse (hasAccountGroup data)) (request, []) data;
          request = (if length accountFields > 0 \<and> \<not> hasAccountGroup data
                     then AList.update ''account'' (JObj accountFields) request
                     else request);
          request = copyFlag data ''echo_query'' request;
          request = copyFlag data ''connectivity'' request;
          request = copyFlag data ''signals'' request
      in request)"

text \<open>
  What the loop collects for the synthesized account group, read off the input: the
  non-empty root identity fields, normalized, in input order.
\<close>

definition foldedFields :: "obj \<Rightarrow> obj" where
  "foldedFields data =
     map (\<lambda>(key, val). (key, normalizeField key val))
       (filter (\<lambda>(key, val). key \<in> set dataFields \<and> \<not> isEmptyValue val \<and>
                               \<not> isEmptyValue (normalizeField key val)) data)"

section \<open>TrustAPIClient (trust-api.ts)\<close>

text \<open>
  What a method throws.  \<open>TrustAPIError\<close> carries the three constructor arguments: message,
  code and httpStatus, \<open>JUndefined\<close> where the source passes none.
\<close>

datatype thrown = TrustAPIError jv jv jv | Error string | TypeError string

text \<open>\<^verbatim>\<open>error.code\<close> of what was thrown; only a \<^verbatim>\<open>TrustAPIError\<close> has the property.\<close>

fun errorCode :: "thrown \<Rightarrow> jv" where
  "errorCode (TrustAPIError message c httpStatus) = c"
| "errorCode e = JUndefined"

record TrustAPIConfig =
  cfg_apiKey :: string
  cfg_baseUrl :: "string option"
  cfg_maxRetries :: "int option"
  cfg_retryDelay :: "int option"
  cfg_timeout :: "int option"
  cfg_rateLimitQPS :: "int option"

text \<open>The client object: its configuration and the rate limiter's window.\<close>

record TrustAPIClient =
  apiKey :: string
  baseUrl :: string
  maxRetries :: int
  retryDelay :: int
  timeout :: int
  rateLimitQPS :: int
  requests :: "int list"
  lastReset :: int

text \<open>
  The world outside the client: the clock that \<^verbatim>\<open>Date.now()\<close> reads, the delays handed to
  \<^verbatim>\<open>sleep\<close> so far, and the network exchanges started so far (url, method, body).  Network
  exchanges take no time on this clock.
\<close>

record world =
  clock :: int
  slept :: "int list"
  fetched :: "(string \<times> string \<times> jv) list"

text \<open>
  \<^verbatim>\<open>sleep(ms)\<close> is \<^verbatim>\<open>new Promise(resolve => setTimeout(resolve, ms))\<close>.  The timer of Node.js
  takes a delay from 1 to 2147483647 milliseconds; a delay above that range, below it, or
  \<^verbatim>\<open>NaN\<close> is replaced by 1.  The timer then fires exactly when its delay has passed, which is
  the earliest a real one may fire.
\<close>

definition timerDelay :: "int \<Rightarrow> int" where
  "timerDelay ms = (if ms < 1 \<or> 2147483647 < ms then 1 else ms)"

definition sleep :: "int \<Rightarrow> world \<Rightarrow> world" where
  "sleep ms w = w\<lparr>clock := clock w + timerDelay ms, slept := slept w @ [ms]\<rparr>"

text \<open>The constructor, with \<^verbatim>\<open>Date.now()\<close> passed in.\<close>

definition newClient :: "TrustAPIConfig \<Rightarrow> int \<Rightarrow> thrown + TrustAPIClient" where
  "newClient config now =
     (if cfg_apiKey config = [] then Inl (Error ''API key is required'')
      else Inr \<lparr>apiKey = cfg_apiKey config,
                baseUrl = (case cfg_baseUrl config of
                             Some u \<Rightarrow> if u \<noteq> [] then u else ''https://api.elephant.online/trust/''
                           | None \<Rightarrow> ''https://api.elephant.online/trust/''),
                maxRetries = (case cfg_maxRetries config of Some n \<Rightarrow> n | None \<Rightarrow> 3),
                retryDelay = (case cfg_retryDelay config of Some n \<Rightarrow> n | None \<Rightarrow> 1000),
                timeout = (case cfg_timeout config of Some n \<Rightarrow> n | None \<Rightarrow> 30000),
                rateLimitQPS = (case cfg_rateLimitQPS config of Some n \<Rightarrow> n | None \<Rightarrow> 10),
                requests = [],
                lastReset = now\<rparr>)"

subsection \<open>RateLimiter: \<^verbatim>\<open>applyRateLimit\<close>\<close>

text \<open>
  \<open>now\<close> is read once, on entry.  With an empty window \<^verbatim>\<open>requests[0]\<close> is \<^verbatim>\<open>undefined\<close>, the wait
  is \<^verbatim>\<open>NaN\<close> and the test \<^verbatim>\<open>waitTime > 0\<close> fails.
\<close>

definition applyRateLimit :: "TrustAPIClient \<Rightarrow> world \<Rightarrow> TrustAPIClient \<times> world" where
  "applyRateLimit c w =
     (let now = clock w;
          oneSecondAgo = now - 1000;
          kept = filter (\<lambda>timestamp. timestamp > oneSecondAgo) (requests c);
          w = (if int (length kept) \<ge> rateLimitQPS c then
                 (case kept of
                    [] \<Rightarrow> w
                  | oldestRequest # rest \<Rightarrow>
                      (let waitTime = 1000 - (now - oldestRequest) + 10
                       in if waitTime > 0 then sleep waitTime w else w))
               else w)
      in (c\<lparr>requests := kept @ [now]\<rparr>, w))"

subsection \<open>ResilientTransport: \<^verbatim>\<open>makeRequest\<close>\<close>

text \<open>
  How one \<^verbatim>\<open>fetch\<close> ends: a response with its status, its \<^verbatim>\<open>Retry-After\<close> header and what
  \<^verbatim>\<open>response.json()\<close> gives (the parsed body, or the message of its rejection); an abort by
  the timeout's \<^verbatim>\<open>AbortController\<close>; or any other rejection, with its message.
\<close>

datatype fetch_outcome =
    Responded int "string option" "string + jv"
  | Aborted
  | Failed string

datatype verdict = Return jv | Throw thrown | Retry int

text \<open>The \<^verbatim>\<open>catch\<close> branch for an error that is neither an abort nor a \<^verbatim>\<open>TrustAPIError\<close>.\<close>

definition onNetworkError :: "TrustAPIClient \<Rightarrow> int \<Rightarrow> string \<Rightarrow> verdict" where
  "onNetworkError c attempt msg =
     (if attempt \<le> maxRetries c then Retry (retryDelay c * attempt)
      else Throw (TrustAPIError (JStr (if msg \<noteq> [] then msg else ''Network error''))
                    JUndefined JUndefined))"

text \<open>
  The body of \<^verbatim>\<open>makeRequest\<close> after the \<^verbatim>\<open>fetch\<close> has settled, up to the recursive call:
  \<open>Retry delay\<close> stands for \<^verbatim>\<open>await this.sleep(delay); return this.makeRequest(..., attempt + 1)\<close>.
  A \<^verbatim>\<open>NaN\<close> delay from an unreadable \<^verbatim>\<open>Retry-After\<close> is written 0: the timer treats the two
  alike.
\<close>

definition attemptOutcome :: "TrustAPIClient \<Rightarrow> int \<Rightarrow> fetch_outcome \<Rightarrow> verdict" where
  "attemptOutcome c attempt outcome =
     (case outcome of
        Aborted \<Rightarrow> Throw (TrustAPIError (JStr ''Request timeout'') JUndefined (JNum 408))
      | Failed msg \<Rightarrow> onNetworkError c attempt msg
      | Responded status retryAfter payload \<Rightarrow>
          if status = 429 then
            (if attempt \<le> maxRetries c then
               Retry (case retryAfter of
                        None \<Rightarrow> retryDelay c * attempt
                      | Some h \<Rightarrow>
                          if h \<noteq> [] then (case parseInt False h of Some n \<Rightarrow> n * 1000 | None \<Rightarrow> 0)
                          else retryDelay c * attempt)
             else Throw (TrustAPIError (JStr ''Rate limit exceeded'') (JNum 1001) (JNum 429)))
          else if status \<ge> 500 \<and> attempt \<le> maxRetries c then Retry (retryDelay c * attempt)
          else
            (case payload of
               Inl msg \<Rightarrow> onNetworkError c attempt msg
             | Inr data \<Rightarrow>
                 if \<not> (200 \<le> status \<and> status \<le> 299) then
                   (if data = JNull \<or> data = JUndefined
                    then onNetworkError c attempt
                           (''Cannot read properties of '' @ jsToString data @
                            '' (reading 'message')'')
                    else Throw (TrustAPIError
                                  (if truthy (get data ''message'') then get data ''message''
                                   else JStr (''HTTP '' @ numberToString status))
                                  (get data ''code'') (JNum status)))
                 else Return data))"

text \<open>
  \<open>net n\<close> is how the \<open>n\<close>-th exchange of the run ends, counting from 0.  The recursion ends
  because a retry needs \<^verbatim>\<open>attempt <= this.maxRetries\<close>.
\<close>

function makeRequest ::
  "TrustAPIClient \<Rightarrow> (nat \<Rightarrow> fetch_outcome) \<Rightarrow> string \<Rightarrow> string \<Rightarrow> jv \<Rightarrow> int \<Rightarrow> world \<Rightarrow>
     (thrown + jv) \<times> world" where
  "makeRequest c net url method body attempt w =
     (let outcome = net (length (fetched w));
          w = w\<lparr>fetched := fetched w @ [(url, method, body)]\<rparr>
      in case attemptOutcome c attempt outcome of
           Return data \<Rightarrow> (Inr data, w)
         | Throw e \<Rightarrow> (Inl e, w)
         | Retry delay \<Rightarrow> makeRequest c net url method body (attempt + 1) (sleep delay w))"
  by pat_completeness auto
termination
  by (relation "measure (\<lambda>(c, net, url, method, body, attempt, w). nat (maxRetries c + 1 - attempt))")
    (auto simp: attemptOutcome_def onNetworkError_def
       split: fetch_outcome.splits if_splits sum.splits)

subsection \<open>Pre-flight validation inside the client: \<^verbatim>\<open>validateRequest\<close>\<close>

text \<open>
  \<^verbatim>\<open>getNestedValue\<close> walks a path written with \<^verbatim>\<open>?.\<close> separators and stops at the first
  falsy value.
\<close>

fun walkParts :: "jv \<Rightarrow> string list \<Rightarrow> jv" where
  "walkParts v [] = v"
| "walkParts v (part # parts) =
     (let v' = optGet v part in if \<not> truthy v' then v' else walkParts v' parts)"

definition getNestedValue :: "jv \<Rightarrow> string \<Rightarrow> jv" where
  "getNestedValue ob path = walkParts ob (split2 (CHR ''?'') (CHR ''.'') path)"

text \<open>A \<^verbatim>\<open>for\<close> loop over paths whose body may throw: the first throw ends it.\<close>

fun firstThrown :: "(string \<Rightarrow> thrown option) \<Rightarrow> string list \<Rightarrow> thrown option" where
  "firstThrown check [] = None"
| "firstThrown check (path # paths) =
     (case check path of Some e \<Rightarrow> Some e | None \<Rightarrow> firstThrown check paths)"

definition validatePhoneObjects :: "jv \<Rightarrow> thrown option" where
  "validatePhoneObjects request =
     firstThrown (\<lambda>path.
        let phone = getNestedValue request path in
        if truthy phone then
          (if \<not> truthy (get phone ''raw'') \<and>
              (\<not> truthy (get phone ''country_code'') \<or> \<not> truthy (get phone ''number''))
           then Some (TrustAPIError
                        (JStr (''Phone object at '' @ path @
                               '' must have either 'raw' or both 'country_code' and 'number'' @
                               [CHR 0x27]))
                        (JNum 1015) JUndefined)
           else if truthy (get phone ''raw'') \<and>
                   (truthy (get phone ''country_code'') \<or> truthy (get phone ''number''))
           then Some (TrustAPIError
                        (JStr (''Phone object at '' @ path @ '' cannot have 'raw' with other fields''))
                        (JNum 1024) JUndefined)
           else None)
        else None)
       [''phone'', ''account?.phone'', ''billing?.phone'', ''shipping?.phone'']"

definition validateAddressObjects :: "jv \<Rightarrow> thrown option" where
  "validateAddressObjects request =
     firstThrown (\<lambda>path.
        let address = getNestedValue request path in
        if truthy address then
          (if \<not> truthy (get address ''raw'') \<and> \<not> truthy (get address ''country'') \<and>
              \<not> truthy (get address ''state'') \<and> \<not> truthy (get address ''zip_code'') \<and>
              \<not> truthy (get address ''city'')
           then Some (TrustAPIError
                        (JStr (''Address object at '' @ path @
                               '' must have at least one of: raw, country, state, zip_code, or city''))
                        (JNum 1017) JUndefined)
           else if truthy (get address ''raw'') \<and> length (entries address) > 1
           then Some (TrustAPIError
                        (JStr (''Address object at '' @ path @ '' cannot have 'raw' with other fields''))
                        (JNum 1024) JUndefined)
           else None)
        else None)
       [''address'', ''account?.address'', ''billing?.address'', ''shipping?.address'']"

definition validateNameObjects :: "jv \<Rightarrow> thrown option" where
  "validateNameObjects request =
     firstThrown (\<lambda>path.
        let name = getNestedValue request path in
        if truthy name then
          (if \<not> truthy (get name ''raw'') \<and>
              (\<not> truthy (get name ''first_name'') \<or> \<not> truthy (get name ''last_name''))
           then Some (TrustAPIError
                        (JStr (''Name object at '' @ path @
                               '' must have either 'raw' or both 'first_name' and 'last_name'' @
                               [CHR 0x27]))
                        (JNum 2023) JUndefined)
           else if truthy (get name ''raw'') \<and>
                   (truthy (get name ''first_name'') \<or> truthy (get name ''last_name''))
           then Some (TrustAPIError
                        (JStr (''Name object at '' @ path @ '' cannot have 'raw' with other fields''))
                        (JNum 1024) JUndefined)
           else None)
        else None)
       [''name'', ''account?.name'', ''billing?.name'', ''shipping?.name'']"

definition clientDataFields :: "string list" where
  "clientDataFields =
     [''account'', ''billing'', ''shipping'', ''sender'', ''recipient'', ''name'', ''email'',
      ''phone'', ''address'', ''device'', ''browser'', ''card'', ''order'', ''page'', ''payment'',
      ''session'', ''person'', ''personal_identifier'', ''locale'', ''custom'', ''metadata'']"

text \<open>\<open>None\<close>: the request passes; \<open>Some e\<close>: \<open>e\<close> is thrown.\<close>

definition validateRequest :: "jv \<Rightarrow> thrown option" where
  "validateRequest request =
     (if \<not> truthy (optGet (get request ''action'') ''type'')
      then Some (TrustAPIError (JStr ''Action type is required'') (JNum 2030) JUndefined)
      else if \<not> list_ex (\<lambda>field. get request field \<noteq> JUndefined) clientDataFields
      then Some (TrustAPIError
                   (JStr ''At least one data field is required (name, email, phone, address, sender, recipient, etc.)'')
                   (JNum 2023) JUndefined)
      else (case validatePhoneObjects request of
              Some e \<Rightarrow> Some e
            | None \<Rightarrow>
                (case validateAddressObjects request of
                   Some e \<Rightarrow> Some e
                 | None \<Rightarrow> validateNameObjects request)))"

subsection \<open>ScoringClient: \<^verbatim>\<open>scoreTransaction\<close> and \<^verbatim>\<open>sendFeedback\<close>\<close>

text \<open>
  The check of a parsed response for a domain error.  Reading \<^verbatim>\<open>response.error\<close> of a
  \<^verbatim>\<open>null\<close> body is a \<^verbatim>\<open>TypeError\<close>.
\<close>

definition checkResponse :: "jv \<Rightarrow> thrown + jv" where
  "checkResponse response =
     (if response = JNull \<or> response = JUndefined
      then Inl (TypeError (''Cannot read properties of '' @ jsToString response @
                           '' (reading 'error')''))
      else if truthy (get response ''error'')
      then Inl (TrustAPIError (get (get response ''error'') ''message'')
                  (get (get response ''error'') ''code'') JUndefined)
      else Inr response)"



definition feedbackFullRequest :: "TrustAPIClient \<Rightarrow> obj \<Rightarrow> obj" where
  "feedbackFullRequest c request =
     [(''key'', JStr (apiKey c)),
      (''action'', JObj [(''type'', JStr ''feedback''),
                         (''organization'', optGet (get (JObj request) ''action'') ''organization'')]),
      (''feedbacks'', if truthy (get (JObj request) ''feedbacks'')
                      then get (JObj request) ''feedbacks'' else JArr [])]"

definition sendFeedback ::
  "TrustAPIClient \<Rightarrow> (nat \<Rightarrow> fetch_outcome) \<Rightarrow> obj \<Rightarrow> world \<Rightarrow>
     (thrown + jv) \<times> TrustAPIClient \<times> world" where
  "sendFeedback c net request w =
     (let fullRequest = JObj (feedbackFullRequest c request) in
      if jsLength (get fullRequest ''feedbacks'') = JNum 0
      then (Inl (TrustAPIError (JStr ''At least one feedback item is required'')
                   JUndefined JUndefined), c, w)
      else if jsGreater (jsLength (get fullRequest ''feedbacks'')) 1000
      then (Inl (TrustAPIError (JStr ''Maximum 1000 feedback items allowed per request'')
                   (JNum 1023) JUndefined), c, w)
      else
        (let (c, w) = applyRateLimit c w;
             (response, w) = makeRequest c net (baseUrl c) ''PUT'' fullRequest 1 w
         in case response of
              Inl e \<Rightarrow> (Inl e, c, w)
            | Inr response \<Rightarrow> (checkResponse response, c, w)))"

text \<open>The limiter and the world after \<open>n\<close> admissions requested back to back.\<close>

fun admissions :: "nat \<Rightarrow> TrustAPIClient \<times> world \<Rightarrow> TrustAPIClient \<times> world" where
  "admissions 0 cw = cw"
| "admissions (Suc n) cw = (case admissions n cw of (c, w) \<Rightarrow> applyRateLimit c w)"

section \<open>RequestValidator (validators.ts)\<close>

text \<open>
  A finding is a \<^verbatim>\<open>ValidationError\<close> or a \<^verbatim>\<open>ValidationWarning\<close>; both have the shape
  \<^verbatim>\<open>{field, message, code?}\<close>.  The validator pushes findings onto two arrays, \<open>errors\<close> and
  \<open>warnings\<close>, which are threaded through the model as a pair.  Where the source calls a
  string method on a value that is not a string, the call throws a \<^verbatim>\<open>TypeError\<close>.
\<close>

record finding =
  field :: string
  message :: string
  code :: "int option"

type_synonym findings = "finding list \<times> finding list"

record ValidationResult =
  valid :: bool
  errors :: "finding list"
  warnings :: "finding list"

text \<open>The entries of \<^verbatim>\<open>ERROR_CODES\<close> (types.ts) that the validator uses.\<close>

definition FIELD_VALIDATION_ERROR :: int where "FIELD_VALIDATION_ERROR = 1015"
definition PARTIAL_ADDRESS :: int where "PARTIAL_ADDRESS = 1017"
definition RAW_WITH_OTHER_FIELDS :: int where "RAW_WITH_OTHER_FIELDS = 1024"
definition MISSING_REQUIRED_FIELD :: int where "MISSING_REQUIRED_FIELD = 2023"
definition ACTION_REQUIRED :: int where "ACTION_REQUIRED = 2030"
definition INVALID_ACTION :: int where "INVALID_ACTION = 2031"

definition pushError :: "string \<Rightarrow> string \<Rightarrow> int \<Rightarrow> findings \<Rightarrow> findings" where
  "pushError f m c fs = (fst fs @ [\<lparr>field = f, message = m, code = Some c\<rparr>], snd fs)"

definition pushWarning :: "string \<Rightarrow> string \<Rightarrow> int option \<Rightarrow> findings \<Rightarrow> findings" where
  "pushWarning f m c fs = (fst fs, snd fs @ [\<lparr>field = f, message = m, code = c\<rparr>])"

text \<open>\<^verbatim>\<open>if (cond) push(...)\<close>\<close>

definition pushErrorIf :: "bool \<Rightarrow> string \<Rightarrow> string \<Rightarrow> int \<Rightarrow> findings \<Rightarrow> findings" where
  "pushErrorIf cond f m c fs = (if cond then pushError f m c fs else fs)"

definition pushWarningIf ::
  "bool \<Rightarrow> string \<Rightarrow> string \<Rightarrow> int option \<Rightarrow> findings \<Rightarrow> findings" where
  "pushWarningIf cond f m c fs = (if cond then pushWarning f m c fs else fs)"

text \<open>Sequencing of steps that may throw.\<close>

definition andThen ::
  "thrown + findings \<Rightarrow> (findings \<Rightarrow> thrown + findings) \<Rightarrow> thrown + findings" where
  "andThen r step = (case r of Inl e \<Rightarrow> Inl e | Inr fs \<Rightarrow> step fs)"

text \<open>\<^verbatim>\<open>if (v) this.validateX(v, ...)\<close>\<close>

definition whenPresent ::
  "jv \<Rightarrow> (jv \<Rightarrow> findings \<Rightarrow> thrown + findings) \<Rightarrow> findings \<Rightarrow> thrown + findings" where
  "whenPresent v check fs = (if truthy v then check v fs else Inr fs)"

subsection \<open>The regular expressions\<close>

text \<open>
  Each is applied with \<^verbatim>\<open>test\<close>, which matches against \<^verbatim>\<open>String(v)\<close>.  \<^verbatim>\<open>\d\<close> is an ASCII digit
  and, without the multiline flag, \<^verbatim>\<open>^\<close> and \<^verbatim>\<open>$\<close> are the two ends of the text.
\<close>

definition isLetter :: "char \<Rightarrow> bool" where
  "isLetter c = (let n = (of_char c :: nat) in (65 \<le> n \<and> n \<le> 90) \<or> (97 \<le> n \<and> n \<le> 122))"

fun splitOn :: "char \<Rightarrow> string \<Rightarrow> string list" where
  "splitOn sep [] = [[]]"
| "splitOn sep (c # cs) =
     (if c = sep then [] # splitOn sep cs
      else (case splitOn sep cs of p # ps \<Rightarrow> (c # p) # ps | [] \<Rightarrow> [[c]]))"

datatype pat = Digit | Lit char

definition matches :: "pat list \<Rightarrow> string \<Rightarrow> bool" where
  "matches ps s = list_all2 (\<lambda>p c. case p of Digit \<Rightarrow> isDigit c | Lit x \<Rightarrow> c = x) ps s"

text \<open>\<^verbatim>\<open>/^\d{4}-\d{2}-\d{2}$/\<close>\<close>

definition dateRegex :: "pat list" where
  "dateRegex = [Digit, Digit, Digit, Digit, Lit (CHR ''-''), Digit, Digit, Lit (CHR ''-''),
                Digit, Digit]"

text \<open>\<^verbatim>\<open>/^\d{4}(-\d{2})?$/\<close> and \<^verbatim>\<open>/^\d+$/\<close>\<close>

definition yearMonthRegex_test :: "string \<Rightarrow> bool" where
  "yearMonthRegex_test s =
     (matches [Digit, Digit, Digit, Digit] s \<or>
      matches [Digit, Digit, Digit, Digit, Lit (CHR ''-''), Digit, Digit] s)"

definition digitsRegex_test :: "string \<Rightarrow> bool" where
  "digitsRegex_test s = (s \<noteq> [] \<and> list_all isDigit s)"

text \<open>\<^verbatim>\<open>/^\d{4}-\d{2}-\d{2}( \d{2}:\d{2}:\d{2})?$/\<close>\<close>

definition createdRegex_test :: "string \<Rightarrow> bool" where
  "createdRegex_test s =
     (matches dateRegex s \<or>
      matches (dateRegex @ [Lit (CHR '' ''), Digit, Digit, Lit (CHR '':''), Digit, Digit,
                            Lit (CHR '':''), Digit, Digit]) s)"

text \<open>
  \<^verbatim>\<open>/^[a-zA-Z0-9'.!_%\-+]+@[a-zA-Z0-9._%\-]+\.[a-zA-Z]{2,24}$/\<close>.  No class contains \<^verbatim>\<open>@\<close>, so
  the local part ends at the first \<^verbatim>\<open>@\<close>; the last class contains no dot, so the top-level
  domain starts after the last dot.
\<close>

definition emailLocalChar :: "char \<Rightarrow> bool" where
  "emailLocalChar c = (isLetter c \<or> isDigit c \<or> c \<in> set (CHR 0x27 # ''.!_%-+''))"

definition emailDomainChar :: "char \<Rightarrow> bool" where
  "emailDomainChar c = (isLetter c \<or> isDigit c \<or> c \<in> set ''._%-'')"

definition emailRegex_test :: "string \<Rightarrow> bool" where
  "emailRegex_test s =
     (let localPart = takeWhile (\<lambda>c. c \<noteq> CHR ''@'') s;
          rest = drop (length localPart + 1) s;
          tld = rev (takeWhile (\<lambda>c. c \<noteq> CHR ''.'') (rev rest));
          domainPart = take (length rest - length tld - 1) rest
      in localPart \<noteq> [] \<and> list_all emailLocalChar localPart \<and>
         length localPart < length s \<and>
         length tld < length rest \<and>
         domainPart \<noteq> [] \<and> list_all emailDomainChar domainPart \<and>
         2 \<le> length tld \<and> length tld \<le> 24 \<and> list_all isLetter tld)"

text \<open>\<^verbatim>\<open>/^(\d{1,3}\.){3}\d{1,3}$/\<close> and \<^verbatim>\<open>/^([0-9a-fA-F]{0,4}:){2,7}[0-9a-fA-F]{0,4}$/\<close>\<close>

definition ipv4Regex_test :: "string \<Rightarrow> bool" where
  "ipv4Regex_test s =
     (let parts = splitOn (CHR ''.'') s
      in length parts = 4 \<and>
         list_all (\<lambda>p. 1 \<le> length p \<and> length p \<le> 3 \<and> list_all isDigit p) parts)"

definition ipv6Regex_test :: "string \<Rightarrow> bool" where
  "ipv6Regex_test s =
     (let parts = splitOn (CHR '':'') s
      in 3 \<le> length parts \<and> length parts \<le> 8 \<and>
         list_all (\<lambda>p. length p \<le> 4 \<and> list_all isHexDigit p) parts)"

subsection \<open>Helpers\<close>

definition isValidIP :: "jv \<Rightarrow> thrown + bool" where
  "isValidIP ip =
     (if ipv4Regex_test (jsToString ip) then
        (case ip of
           JStr s \<Rightarrow>
             Inr (list_all (\<lambda>part. case parseInt True part of
                                     Some num \<Rightarrow> num \<ge> 0 \<and> num \<le> 255
                                   | None \<Rightarrow> False)
                    (splitOn (CHR ''.'') s))
         | _ \<Rightarrow> Inl (TypeError ''ip.split is not a function''))
      else Inr (ipv6Regex_test (jsToString ip)))"

definition isValidCPF :: "jv \<Rightarrow> thrown + bool" where
  "isValidCPF cpf =
     (case cpf of
        JStr s \<Rightarrow>
          (let cleaned = filter isDigit s
           in if length cleaned \<noteq> 11 then Inr False
              else if list_all (\<lambda>d. d = hd cleaned) cleaned then Inr False
              else Inr True)
      | _ \<Rightarrow> Inl (TypeError ''cpf.replace is not a function''))"

text \<open>\<^verbatim>\<open>if (!this.isValidIP(ip)) warnings.push(...)\<close>, and the same for errors.\<close>

definition warnUnlessIP :: "jv \<Rightarrow> string \<Rightarrow> findings \<Rightarrow> thrown + findings" where
  "warnUnlessIP ip f fs =
     (case isValidIP ip of
        Inl e \<Rightarrow> Inl e
      | Inr ok \<Rightarrow> Inr (pushWarningIf (\<not> ok) f ''Invalid IP address format'' None fs))"

definition errorUnlessIP :: "jv \<Rightarrow> string \<Rightarrow> string \<Rightarrow> findings \<Rightarrow> thrown + findings" where
  "errorUnlessIP ip f m fs =
     (case isValidIP ip of
        Inl e \<Rightarrow> Inl e
      | Inr ok \<Rightarrow> Inr (pushErrorIf (\<not> ok) f m FIELD_VALIDATION_ERROR fs))"

subsection \<open>The field validators\<close>

definition validateName :: "jv \<Rightarrow> string \<Rightarrow> findings \<Rightarrow> thrown + findings" where
  "validateName name path fs =
     (if truthy (get name ''raw'') then
        (let fs = pushErrorIf
                    (truthy (get name ''first_name'') \<or> truthy (get name ''last_name'') \<or>
                     truthy (get name ''middle_name'') \<or> truthy (get name ''prefix'') \<or>
                     truthy (get name ''suffix''))
                    path ''Cannot use raw with other name fields'' RAW_WITH_OTHER_FIELDS fs
         in case get name ''raw'' of
              JStr raw \<Rightarrow>
                Inr (pushWarningIf (length (trim raw) < 2)
                       (path @ ''.raw'') ''Name appears too short'' None fs)
            | _ \<Rightarrow> Inl (TypeError ''name.raw.trim is not a function''))
      else if \<not> truthy (get name ''first_name'') \<or> \<not> truthy (get name ''last_name'') then
        Inr (pushError path ''Name must have either raw or both first_name and last_name''
               MISSING_REQUIRED_FIELD fs)
      else
        (let fs = pushWarningIf (jsLess (jsLength (get name ''first_name'')) 1)
                    (path @ ''.first_name'') ''First name should be at least 1 character'' None fs;
             fs = pushWarningIf (jsLess (jsLength (get name ''last_name'')) 2)
                    (path @ ''.last_name'') ''Last name should be at least 2 characters'' None fs
         in Inr fs))"

definition testEmails :: "string list" where
  "testEmails = [''test@test.com'', ''example@example.com'', ''user@example.com'']"

definition validateEmail :: "jv \<Rightarrow> string \<Rightarrow> findings \<Rightarrow> thrown + findings" where
  "validateEmail email path fs =
     (if \<not> truthy (get email ''address'') then
        Inr (pushError path ''Email address is required'' MISSING_REQUIRED_FIELD fs)
      else
        (let fs = pushErrorIf (\<not> emailRegex_test (jsToString (get email ''address'')))
                    (path @ ''.address'') ''Invalid email format'' FIELD_VALIDATION_ERROR fs
         in case get email ''address'' of
              JStr address \<Rightarrow>
                Inr (pushWarningIf (toLowerCase address \<in> set testEmails)
                       (path @ ''.address'') ''Test email address detected'' None fs)
            | _ \<Rightarrow> Inl (TypeError ''email.address.toLowerCase is not a function'')))"

definition validatePhone :: "jv \<Rightarrow> string \<Rightarrow> findings \<Rightarrow> thrown + findings" where
  "validatePhone phone path fs =
     (if truthy (get phone ''raw'') then
        (let fs = pushErrorIf
                    (truthy (get phone ''country_code'') \<or> truthy (get phone ''number'') \<or>
                     truthy (get phone ''extension''))
                    path ''Cannot use raw with other phone fields'' RAW_WITH_OTHER_FIELDS fs
         in case get phone ''raw'' of
              JStr raw \<Rightarrow>
                (let digitsOnly = filter isDigit raw
                 in Inr (pushWarningIf (length digitsOnly < 7)
                           (path @ ''.raw'') ''Phone number appears too short'' None fs))
            | _ \<Rightarrow> Inl (TypeError ''phone.raw.replace is not a function''))
      else if \<not> truthy (get phone ''country_code'') \<or> \<not> truthy (get phone ''number'') then
        Inr (pushError path ''Phone must have either raw or both country_code and number''
               FIELD_VALIDATION_ERROR fs)
      else
        (let cc = jsToString (get phone ''country_code'');
             fs = pushWarningIf (length cc > 3 \<or> length cc < 1)
                    (path @ ''.country_code'') ''Country code should be 1-3 digits'' None fs;
             num = jsToString (get phone ''number'');
             fs = pushWarningIf (length num < 7 \<or> length num > 15)
                    (path @ ''.number'') ''Phone number should be 7-15 digits'' None fs
         in Inr fs))"

definition addressOtherFields :: "string list" where
  "addressOtherFields = [''country'', ''state'', ''city'', ''street'', ''house'', ''po_box'',
                         ''zip_code'']"

definition validateAddress :: "jv \<Rightarrow> string \<Rightarrow> findings \<Rightarrow> thrown + findings" where
  "validateAddress address path fs =
     (if truthy (get address ''raw'') then
        (let hasOtherFields = list_ex (\<lambda>f. truthy (get address f)) addressOtherFields
         in Inr (pushErrorIf hasOtherFields path ''Cannot use raw with other address fields''
                   RAW_WITH_OTHER_FIELDS fs))
      else
        (let hasMinimumFields =
               (truthy (get address ''country'') \<or> truthy (get address ''state'') \<or>
                truthy (get address ''zip_code'') \<or> truthy (get address ''city''));
             fs = pushErrorIf (\<not> hasMinimumFields) path
                    ''Address must have at least one of: raw, country, state, zip_code, or city''
                    PARTIAL_ADDRESS fs;
             fs = pushWarningIf
                    (truthy (get address ''country'') \<and>
                     jsLength (get address ''country'') \<noteq> JNum 2)
                    (path @ ''.country'') ''Country should be a 2-letter ISO code'' (Some 2013) fs;
             fs = pushWarningIf
                    (truthy (get address ''state'') \<and> get address ''country'' = JStr ''US'' \<and>
                     jsLength (get address ''state'') \<noteq> JNum 2)
                    (path @ ''.state'') ''US state should be a 2-letter code'' (Some 2005) fs;
             fs = pushWarningIf
                    (truthy (get address ''state'') \<and> \<not> truthy (get address ''country''))
                    (path @ ''.state'') ''State provided without country'' (Some 2014) fs;
             fs = pushWarningIf
                    (truthy (get address ''city'') \<and> \<not> truthy (get address ''state'') \<and>
                     \<not> truthy (get address ''country''))
                    (path @ ''.city'') ''City provided without state or country'' (Some 2016) fs
         in Inr fs))"

definition validateDevice :: "jv \<Rightarrow> string \<Rightarrow> findings \<Rightarrow> thrown + findings" where
  "validateDevice device path fs =
     foldl andThen (Inr fs)
       [whenPresent (get device ''ip'')
          (\<lambda>ip. errorUnlessIP ip (path @ ''.ip'') ''Invalid IP address format''),
        whenPresent (get device ''true_ip'')
          (\<lambda>ip. errorUnlessIP ip (path @ ''.true_ip'') ''Invalid true_ip address format''),
        (\<lambda>fs. Inr (pushWarningIf
                     (get device ''battery_level'' \<noteq> JUndefined \<and>
                      (jsLess (get device ''battery_level'') 0 \<or>
                       jsGreater (get device ''battery_level'') 100))
                     (path @ ''.battery_level'') ''Battery level should be between 0 and 100''
                     None fs)),
        (\<lambda>fs. Inr (pushWarningIf
                     (truthy (get device ''is_emulator'') \<or> truthy (get device ''is_virtual_env''))
                     path ''Virtual environment or emulator detected'' None fs)),
        (\<lambda>fs. Inr (pushWarningIf (truthy (get device ''is_rooted''))
                     path ''Rooted/jailbroken device detected'' None fs))]"

definition validatePerson :: "jv \<Rightarrow> string \<Rightarrow> findings \<Rightarrow> thrown + findings" where
  "validatePerson person path fs =
     (let dob = jsToString (get person ''dob'');
          fs = pushWarningIf
                 (truthy (get person ''dob'') \<and> \<not> matches dateRegex dob \<and>
                  \<not> yearMonthRegex_test dob \<and> \<not> digitsRegex_test dob)
                 (path @ ''.dob'')
                 ''Date of birth should be in YYYY-MM-DD, YYYY-MM, YYYY, or age format'' None fs;
          fs = pushErrorIf
                 (truthy (get person ''gender'') \<and> get person ''gender'' \<noteq> JStr ''M'' \<and>
                  get person ''gender'' \<noteq> JStr ''F'')
                 (path @ ''.gender'') ''Gender must be M or F'' FIELD_VALIDATION_ERROR fs
      in Inr fs)"

definition validatePersonalIdentifier :: "jv \<Rightarrow> string \<Rightarrow> findings \<Rightarrow> thrown + findings" where
  "validatePersonalIdentifier identifier path fs =
     (let fs = pushErrorIf (\<not> truthy (get identifier ''type''))
                 (path @ ''.type'') ''Identifier type is required'' MISSING_REQUIRED_FIELD fs;
          fs = pushErrorIf (\<not> truthy (get identifier ''value''))
                 (path @ ''.value'') ''Identifier value is required'' MISSING_REQUIRED_FIELD fs
      in foldl andThen (Inr fs)
           [(\<lambda>fs. if get identifier ''type'' = JStr ''CPF'' \<and> truthy (get identifier ''value'')
                   then (case isValidCPF (get identifier ''value'') of
                           Inl e \<Rightarrow> Inl e
                         | Inr ok \<Rightarrow> Inr (pushWarningIf (\<not> ok) (path @ ''.value'')
                                            ''CPF format appears invalid'' None fs))
                   else Inr fs),
            (\<lambda>fs. Inr (pushWarningIf
                         (truthy (get identifier ''issue_date'') \<and>
                          \<not> matches dateRegex (jsToString (get identifier ''issue_date'')))
                         (path @ ''.issue_date'') ''Issue date should be in YYYY-MM-DD format''
                         None fs)),
            (\<lambda>fs. Inr (pushWarningIf
                         (truthy (get identifier ''expiry_date'') \<and>
                          \<not> matches dateRegex (jsToString (get identifier ''expiry_date'')))
                         (path @ ''.expiry_date'') ''Expiry date should be in YYYY-MM-DD format''
                         None fs))])"

text \<open>
  \<^verbatim>\<open>account.ip_history.forEach((ip, index) => ...)\<close>: only an array has \<^verbatim>\<open>forEach\<close>.
\<close>

definition validateIpHistory :: "jv \<Rightarrow> findings \<Rightarrow> thrown + findings" where
  "validateIpHistory history fs =
     (case history of
        JArr ips \<Rightarrow>
          foldl andThen (Inr fs)
            (map (\<lambda>index. warnUnlessIP (ips ! index)
                            (''account.ip_history['' @ show_nat index @ '']''))
               [0..<length ips])
      | _ \<Rightarrow> Inl (TypeError ''account.ip_history.forEach is not a function''))"

definition validateAccountGroup :: "jv \<Rightarrow> findings \<Rightarrow> thrown + findings" where
  "validateAccountGroup account fs =
     foldl andThen (Inr fs)
       [whenPresent (get account ''name'') (\<lambda>v. validateName v ''account.name''),
        whenPresent (get account ''email'') (\<lambda>v. validateEmail v ''account.email''),
        whenPresent (get account ''phone'') (\<lambda>v. validatePhone v ''account.phone''),
        whenPresent (get account ''address'') (\<lambda>v. validateAddress v ''account.address''),
        whenPresent (get account ''person'') (\<lambda>v. validatePerson v ''account.person''),
        whenPresent (get account ''personal_identifier'')
          (\<lambda>v. validatePersonalIdentifier v ''account.personal_identifier''),
        (\<lambda>fs. Inr (pushWarningIf
                     (truthy (get account ''created'') \<and>
                      \<not> createdRegex_test (jsToString (get account ''created'')))
                     ''account.created'' ''Created date should be in YYYY-MM-DD HH:MM:SS format''
                     None fs)),
        whenPresent (get account ''ip_created'') (\<lambda>ip. warnUnlessIP ip ''account.ip_created''),
        whenPresent (get account ''ip_last'') (\<lambda>ip. warnUnlessIP ip ''account.ip_last''),
        whenPresent (get account ''ip_history'') validateIpHistory]"

definition validateBillingShippingGroup :: "jv \<Rightarrow> string \<Rightarrow> findings \<Rightarrow> thrown + findings" where
  "validateBillingShippingGroup grp groupName fs =
     foldl andThen (Inr fs)
       [whenPresent (get grp ''name'') (\<lambda>v. validateName v (groupName @ ''.name'')),
        whenPresent (get grp ''email'') (\<lambda>v. validateEmail v (groupName @ ''.email'')),
        whenPresent (get grp ''phone'') (\<lambda>v. validatePhone v (groupName @ ''.phone'')),
        whenPresent (get grp ''address'') (\<lambda>v. validateAddress v (groupName @ ''.address''))]"

subsection \<open>\<^verbatim>\<open>RequestValidator.validateRequest\<close>\<close>

definition validatorDataFields :: "string list" where
  "validatorDataFields =
     [''name'', ''email'', ''phone'', ''address'', ''device'', ''account'', ''billing'',
      ''shipping'', ''sender'', ''recipient'', ''browser'', ''card'', ''order'', ''page'',
      ''payment'', ''session'', ''person'', ''personal_identifier'', ''locale'', ''custom'',
      ''metadata'']"

text \<open>The checks of one pass, in the order of the source.\<close>

definition validationSteps :: "jv \<Rightarrow> (findings \<Rightarrow> thrown + findings) list" where
  "validationSteps request =
     [(\<lambda>fs. Inr (if \<not> truthy (get request ''action'')
                  then pushError ''action'' ''Action object is required'' ACTION_REQUIRED fs
                  else pushErrorIf (\<not> truthy (get (get request ''action'') ''type''))
                         ''action.type'' ''Action type is required'' INVALID_ACTION fs)),
      (\<lambda>fs. Inr (pushErrorIf
                   (\<not> list_ex (\<lambda>f. get request f \<noteq> JUndefined) validatorDataFields)
                   ''data'' ''At least one data field is required'' MISSING_REQUIRED_FIELD fs)),
      whenPresent (get request ''name'') (\<lambda>v. validateName v ''name''),
      whenPresent (get request ''email'') (\<lambda>v. validateEmail v ''email''),
      whenPresent (get request ''phone'') (\<lambda>v. validatePhone v ''phone''),
      whenPresent (get request ''address'') (\<lambda>v. validateAddress v ''address''),
      whenPresent (get request ''device'') (\<lambda>v. validateDevice v ''device''),
      whenPresent (get request ''person'') (\<lambda>v. validatePerson v ''person''),
      whenPresent (get request ''personal_identifier'')
        (\<lambda>v. validatePersonalIdentifier v ''personal_identifier''),
      whenPresent (get request ''account'') validateAccountGroup,
      whenPresent (get request ''billing'') (\<lambda>v. validateBillingShippingGroup v ''billing''),
      whenPresent (get request ''shipping'') (\<lambda>v. validateBillingShippingGroup v ''shipping'')]"

definition RequestValidator_validateRequest :: "jv \<Rightarrow> thrown + ValidationResult" where
  "RequestValidator_validateRequest request =
     (case foldl andThen (Inr ([], [])) (validationSteps request) of
        Inl e \<Rightarrow> Inl e
      | Inr fs \<Rightarrow> Inr \<lparr>valid = (length (fst fs) = 0), errors = fst fs, warnings = snd fs\<rparr>)"

section \<open>The score tools\<close>




section \<open>Reading a validation pass\<close>

text \<open>
  What a step reports when it is run on its own, on empty arrays; a step that only ever
  appends to the arrays it is given; and a step all of whose errors are coded.
\<close>

definition alone :: "(findings \<Rightarrow> thrown + findings) \<Rightarrow> findings" where
  "alone step = (case step ([], []) of Inl e \<Rightarrow> ([], []) | Inr d \<Rightarrow> d)"

definition appends :: "(findings \<Rightarrow> thrown + findings) \<Rightarrow> bool" where
  "appends step =
     (\<forall>fs. step fs = (case step ([], []) of
                        Inl e \<Rightarrow> Inl e
                      | Inr d \<Rightarrow> Inr (fst fs @ fst d, snd fs @ snd d)))"

text \<open>A finding carries a domain code when its code is one of the \<^verbatim>\<open>ERROR_CODES\<close>.\<close>

definition hasCode :: "finding \<Rightarrow> bool" where
  "hasCode e =
     (code e \<in> {Some FIELD_VALIDATION_ERROR, Some PARTIAL_ADDRESS, Some RAW_WITH_OTHER_FIELDS,
                Some MISSING_REQUIRED_FIELD, Some ACTION_REQUIRED, Some INVALID_ACTION})"



text \<open>
  A warning is paired with an error when it is reported for the error's field or for a
  sub-field of it: its \<^verbatim>\<open>field\<close> is the error's, or the error's followed by a dot and more.
\<close>

definition paired :: "finding \<Rightarrow> finding \<Rightarrow> bool" where
  "paired e wa = (field wa = field e \<or> startsWith (field wa) (field e @ ''.''))"

text \<open>
  The error that \<^verbatim>\<open>raw\<close> is combined with other fields of a phone or of a name, with the
  warning that this \<^verbatim>\<open>raw\<close> is too short.
\<close>

definition rawPairing :: "finding \<Rightarrow> finding \<Rightarrow> bool" where
  "rawPairing e wa =
     (code e = Some RAW_WITH_OTHER_FIELDS \<and> field wa = field e @ ''.raw'' \<and>
      (message e = ''Cannot use raw with other phone fields'' \<and>
       message wa = ''Phone number appears too short'' \<or>
       message e = ''Cannot use raw with other name fields'' \<and>
       message wa = ''Name appears too short''))"

text \<open>Findings in which every paired error and warning are of that one kind.\<close>

definition tieBreak :: "findings \<Rightarrow> bool" where
  "tieBreak fs = (\<forall>e \<in> set (fst fs). \<forall>wa \<in> set (snd fs). paired e wa \<longrightarrow> rawPairing e wa)"

text \<open>
  Findings whose fields all begin with one text, and texts none of which begins with
  another: findings that begin with different ones of them are never paired.
\<close>

definition inside :: "string \<Rightarrow> findings \<Rightarrow> bool" where
  "inside scope fs = (\<forall>f \<in> set (fst fs) \<union> set (snd fs). startsWith (field f) scope)"

definition apart :: "string list \<Rightarrow> bool" where
  "apart scopes =
     (distinct scopes \<and> (\<forall>p \<in> set scopes. \<forall>q \<in> set scopes. startsWith p q \<longrightarrow> p = q))"

definition scoped :: "string \<Rightarrow> (findings \<Rightarrow> thrown + findings) \<Rightarrow> bool" where
  "scoped scope step = (tieBreak (alone step) \<and> inside scope (alone step))"
section \<open>Properties of the sanitizer\<close>

lemma isEmptyValue_JStr [simp]: "isEmptyValue (JStr s) = placeholder s"
  by (simp add: placeholder_def Let_def)

declare isEmptyValue.simps(3) [simp del]

lemma cleanObject_JObj:
  "cleanObject (JObj es) =
     (let cleaned = foldl (keepCleaned cleanObject) [] es
      in if cleaned \<noteq> [] then JObj cleaned else JUndefined)"
  by (simp add: keepCleaned_def)

lemma keepCleaned_step:
  "keepCleaned c acc (k, x) = (if isEmptyValue (c x) then acc else setProperty k (c x) acc)"
  by (simp add: keepCleaned_def)

declare cleanObject.simps(2) [simp del]


lemma update_not_Nil [simp]: "AList.update k v al \<noteq> []"
  by (cases al) auto

lemma update_fresh: "k \<notin> fst ` set al \<Longrightarrow> AList.update k v al = al @ [(k, v)]"
  by (induction al) auto

lemma set_update_subset: "set (AList.update k v al) \<subseteq> insert (k, v) (set al)"
  by (induction al) auto

lemma setProperty_Nil: "setProperty k v al = [] \<longleftrightarrow> al = [] \<and> k = ''__proto__''"
  by (simp add: setProperty_def)

lemma setProperty_proto [simp]: "setProperty ''__proto__'' v al = al"
  by (simp add: setProperty_def)

lemma setProperty_other: "k \<noteq> ''__proto__'' \<Longrightarrow> setProperty k v al = AList.update k v al"
  by (simp add: setProperty_def)


lemma keepCleaned_distinct:
  "distinct (map fst acc) \<Longrightarrow> distinct (map fst (foldl (keepCleaned c) acc es))"
  by (induction es arbitrary: acc) (auto simp: keepCleaned_step setProperty_def distinct_update)

lemma keepCleaned_values:
  "(k, v) \<in> set (foldl (keepCleaned c) acc es) \<Longrightarrow>
     (k, v) \<in> set acc \<or>
     (\<exists>x. (k, x) \<in> set es \<and> v = c x \<and> \<not> isEmptyValue v \<and> k \<noteq> ''__proto__'')"
proof (induction es arbitrary: acc)
  case Nil
  then show ?case by simp
next
  case (Cons e es)
  obtain k' x' where e: "e = (k', x')" by (cases e)
  show ?case
  proof (cases "isEmptyValue (c x') \<or> k' = ''__proto__''")
    case True
    then have "keepCleaned c acc (k', x') = acc"
      by (cases "k' = ''__proto__''") (simp_all add: keepCleaned_step setProperty_def)
    with Cons.prems e have "(k, v) \<in> set (foldl (keepCleaned c) acc es)"
      by simp
    from Cons.IH [OF this] show ?thesis by auto
  next
    case False
    with Cons.prems e have "(k, v) \<in> set (foldl (keepCleaned c) (AList.update k' (c x') acc) es)"
      by (simp add: keepCleaned_step setProperty_other)
    from Cons.IH [OF this] have
      "(k, v) \<in> set (AList.update k' (c x') acc) \<or>
       (\<exists>x. (k, x) \<in> set es \<and> v = c x \<and> \<not> isEmptyValue v \<and> k \<noteq> ''__proto__'')" .
    then show ?thesis using e False set_update_subset [of k' "c x'" acc] by auto
  qed
qed

lemma keepCleaned_fixed:
  "distinct (map fst (acc @ es)) \<Longrightarrow>
   \<forall>(k, v) \<in> set es. c v = v \<and> \<not> isEmptyValue v \<and> k \<noteq> ''__proto__'' \<Longrightarrow>
     foldl (keepCleaned c) acc es = acc @ es"
proof (induction es arbitrary: acc)
  case Nil
  then show ?case by simp
next
  case (Cons e es)
  obtain k x where e: "e = (k, x)" by (cases e)
  from Cons.prems e have fresh: "k \<notin> fst ` set acc" by auto
  from Cons.prems e have step: "keepCleaned c acc e = acc @ [(k, x)]"
    by (simp add: keepCleaned_step setProperty_other update_fresh [OF fresh])
  from Cons.prems e have "distinct (map fst ((acc @ [(k, x)]) @ es))" by auto
  moreover from Cons.prems
  have "\<forall>(k, v) \<in> set es. c v = v \<and> \<not> isEmptyValue v \<and> k \<noteq> ''__proto__''" by simp
  ultimately have "foldl (keepCleaned c) (acc @ [(k, x)]) es = (acc @ [(k, x)]) @ es"
    by (rule Cons.IH)
  with step e show ?case by simp
qed

text \<open>
  C3.  Sanitization is idempotent: cleaning an already cleaned value changes nothing,
  \<^verbatim>\<open>cleanObject(cleanObject(x)) = cleanObject(x)\<close> for every value \<open>x\<close>.
\<close>

theorem cleanObject_idempotent: "cleanObject (cleanObject x) = cleanObject x"
proof (induction x)
  case (JArr xs)
  let ?ys = "filter (\<lambda>item. \<not> isEmptyValue item) (map cleanObject xs)"
  have fixed: "cleanObject y = y" if "y \<in> set ?ys" for y
    using that JArr.IH by auto
  have "map cleanObject ?ys = ?ys"
    using fixed by (intro map_idI)
  moreover have "filter (\<lambda>item. \<not> isEmptyValue item) ?ys = ?ys"
    by simp
  ultimately show ?case by simp
next
  case (JObj es)
  let ?cleaned = "foldl (keepCleaned cleanObject) [] es"
  show ?case
  proof (cases "?cleaned = []")
    case True
    then show ?thesis by (simp add: cleanObject_JObj)
  next
    case False
    have d: "distinct (map fst ([] @ ?cleaned))"
      using keepCleaned_distinct [of "[]" cleanObject es] by simp
    have v: "\<forall>(k, v) \<in> set ?cleaned. cleanObject v = v \<and> \<not> isEmptyValue v \<and> k \<noteq> ''__proto__''"
    proof (clarify, intro conjI)
      fix k v assume "(k, v) \<in> set ?cleaned"
      from keepCleaned_values [OF this] obtain x where
        x: "(k, x) \<in> set es" "v = cleanObject x" "\<not> isEmptyValue v" "k \<noteq> ''__proto__''"
        by auto
      from x(1) have "cleanObject (cleanObject x) = cleanObject x"
        by (intro JObj.IH [of "(k, x)"]) auto
      with x show "cleanObject v = v" by simp
      from x show "\<not> isEmptyValue v" by simp
      from x show "k \<noteq> ''__proto__''" by simp
    qed
    have "foldl (keepCleaned cleanObject) [] ?cleaned = ?cleaned"
      using keepCleaned_fixed [OF d v] by simp
    with False show ?thesis by (simp add: cleanObject_JObj)
  qed
qed simp_all




lemma map_of_update: "map_of (AList.update k v al) = (map_of al)(k \<mapsto> v)"
  by (rule AList.update_conv')

lemma dataFields_keys:
  assumes "k \<in> set dataFields"
  shows "k \<noteq> ''action''" "k \<noteq> ''key''" "k \<noteq> ''sender''" "k \<noteq> ''recipient''"
    "k \<noteq> ''metadata''" "k \<noteq> ''account''" "k \<noteq> ''billing''" "k \<noteq> ''shipping''"
    "k \<noteq> ''echo_query''" "k \<noteq> ''connectivity''" "k \<noteq> ''signals''"
  using assms by (auto simp: dataFields_def)

lemma processField_fst:
  "fst (processField parse h (req, acc) (k, v)) =
     (case map_of (fst (processField parse h ([], []) (k, v))) k of
        None \<Rightarrow> req | Some x \<Rightarrow> AList.update k x req)"
  by (simp add: processField_def Let_def)

lemma processField_snd_True: "snd (processField parse True (req, acc) (k, v)) = acc"
  by (simp add: processField_def Let_def)

lemma processField_snd_other:
  "k \<notin> set dataFields \<Longrightarrow> snd (processField parse h (req, acc) (k, v)) = acc"
  by (simp add: processField_def Let_def)

lemma processField_snd_data:
  "k \<in> set dataFields \<Longrightarrow>
   snd (processField parse False (req, acc) (k, v)) =
     (if \<not> isEmptyValue v \<and> \<not> isEmptyValue (normalizeField k v)
      then AList.update k (normalizeField k v) acc else acc)"
  by (simp add: processField_def Let_def dataFields_keys)

lemma processField_root_True:
  "k \<in> set dataFields \<Longrightarrow>
   map_of (fst (processField parse True ([], []) (k, v))) k =
     (if isEmptyValue v \<or> isEmptyValue (normalizeField k v) then None
      else Some (normalizeField k v))"
  by (simp add: processField_def Let_def dataFields_keys)

lemma processField_root_False:
  "k \<in> set dataFields \<Longrightarrow> map_of (fst (processField parse False ([], []) (k, v))) k = None"
  by (simp add: processField_def Let_def dataFields_keys)

lemma processField_root_account:
  "map_of (fst (processField parse h ([], []) (''account'', v))) ''account'' =
     (if isEmptyValue v \<or> isEmptyValue (cleanObject (normalizeGroupFields v)) then None
      else Some (cleanObject (normalizeGroupFields v)))"
  by (simp add: processField_def Let_def)

lemma foldl_processField_root:
  "distinct (map fst data) \<Longrightarrow>
   map_of (fst (foldl (processField parse h) (req, acc) data)) k =
     (case map_of data k of
        None \<Rightarrow> map_of req k
      | Some v \<Rightarrow>
          (case map_of (fst (processField parse h ([], []) (k, v))) k of
             None \<Rightarrow> map_of req k | Some x \<Rightarrow> Some x))"
proof (induction data arbitrary: req acc)
  case Nil
  then show ?case by simp
next
  case (Cons e data)
  obtain k' v' where e: "e = (k', v')" by (cases e)
  obtain req' acc' where st: "processField parse h (req, acc) (k', v') = (req', acc')"
    by (cases "processField parse h (req, acc) (k', v')")
  have req': "req' = (case map_of (fst (processField parse h ([], []) (k', v'))) k' of
                        None \<Rightarrow> req | Some x \<Rightarrow> AList.update k' x req)"
    using processField_fst [of parse h req acc k' v'] st by simp
  from Cons.prems e have d: "distinct (map fst data)" and fresh: "k' \<notin> fst ` set data" by auto
  have ih: "map_of (fst (foldl (processField parse h) (req', acc') data)) k =
     (case map_of data k of
        None \<Rightarrow> map_of req' k
      | Some v \<Rightarrow>
          (case map_of (fst (processField parse h ([], []) (k, v))) k of
             None \<Rightarrow> map_of req' k | Some x \<Rightarrow> Some x))"
    by (rule Cons.IH [OF d])
  show ?case
  proof (cases "k = k'")
    case True
    from fresh True have "map_of data k = None" by (simp add: map_of_eq_None_iff)
    with ih True e st req' show ?thesis
      by (simp add: map_of_update split: option.splits)
  next
    case False
    then have "map_of req' k = map_of req k"
      using req' by (simp add: map_of_update split: option.splits)
    with ih False e st show ?thesis by (simp split: option.splits)
  qed
qed

lemma foldl_processField_account_True:
  "snd (foldl (processField parse True) (req, acc) data) = acc"
proof (induction data arbitrary: req acc)
  case Nil
  then show ?case by simp
next
  case (Cons e data)
  obtain k v where e: "e = (k, v)" by (cases e)
  obtain req' acc' where st: "processField parse True (req, acc) (k, v) = (req', acc')"
    by (cases "processField parse True (req, acc) (k, v)")
  with processField_snd_True [of parse req acc k v] have "acc' = acc" by simp
  with Cons.IH [of req' acc'] e st show ?case by simp
qed

lemma foldedFields_Cons:
  "foldedFields ((k, v) # data) =
     (if k \<in> set dataFields \<and> \<not> isEmptyValue v \<and> \<not> isEmptyValue (normalizeField k v)
      then (k, normalizeField k v) # foldedFields data else foldedFields data)"
  by (simp add: foldedFields_def)

lemma foldl_processField_account_False:
  "distinct (map fst (acc @ data)) \<Longrightarrow>
   snd (foldl (processField parse False) (req, acc) data) = acc @ foldedFields data"
proof (induction data arbitrary: req acc)
  case Nil
  then show ?case by (simp add: foldedFields_def)
next
  case (Cons e data)
  obtain k v where e: "e = (k, v)" by (cases e)
  obtain req' acc' where st: "processField parse False (req, acc) (k, v) = (req', acc')"
    by (cases "processField parse False (req, acc) (k, v)")
  from Cons.prems e have fresh: "k \<notin> fst ` set acc" by auto
  let ?keep = "k \<in> set dataFields \<and> \<not> isEmptyValue v \<and> \<not> isEmptyValue (normalizeField k v)"
  have acc': "acc' = (if ?keep then acc @ [(k, normalizeField k v)] else acc)"
  proof (cases "k \<in> set dataFields")
    case True
    with processField_snd_data [OF True, of parse req acc v] st show ?thesis
      by (simp add: update_fresh [OF fresh])
  next
    case False
    with processField_snd_other [OF False, of parse False req acc v] st show ?thesis by simp
  qed
  have "distinct (map fst (acc' @ data))"
    using Cons.prems e acc' by auto
  then have "snd (foldl (processField parse False) (req', acc') data) = acc' @ foldedFields data"
    by (rule Cons.IH)
  with e st acc' show ?case by (simp add: foldedFields_Cons)
qed

lemma map_of_copyFlag: "k \<noteq> flag \<Longrightarrow> map_of (copyFlag data flag req) k = map_of req k"
  by (simp add: copyFlag_def map_of_update)

lemma map_of_buildRequest:
  assumes "k \<noteq> ''echo_query''" "k \<noteq> ''connectivity''" "k \<noteq> ''signals''"
  shows "map_of (buildRequest parse data) k =
     (let st = foldl (processField parse (hasAccountGroup data))
                 ([(''action'', if truthy (get (JObj data) ''action'')
                                then get (JObj data) ''action'' else defaultAction)], []) data
      in if k = ''account'' \<and> snd st \<noteq> [] \<and> \<not> hasAccountGroup data
         then Some (JObj (snd st)) else map_of (fst st) k)"
  using assms by (simp add: buildRequest_def Let_def map_of_copyFlag map_of_update split: prod.splits)

lemma jo_doe_filled: "\<not> placeholder ''Jo Doe''"
  by code_simp

lemma buildRequest_root_name:
  "buildRequest parse [(''name'', JStr ''Jo Doe'')] =
     [(''action'', JObj [(''type'', JStr ''purchase'')]),
      (''account'', JObj [(''name'', JObj [(''raw'', JStr ''Jo Doe'')])])]"
  by (simp add: buildRequest_def hasAccountGroup_def processField_def dataFields_def
      normalizeField_def copyFlag_def defaultAction_def jo_doe_filled Let_def)

lemma buildRequest_empty_account:
  "buildRequest parse [(''account'', JObj []), (''name'', JStr ''Jo Doe'')] =
     [(''action'', JObj [(''type'', JStr ''purchase'')]),
      (''name'', JObj [(''raw'', JStr ''Jo Doe'')])]"
  by (simp add: buildRequest_def hasAccountGroup_def processField_def dataFields_def
      otherFields_def normalizeField_def copyFlag_def defaultAction_def jo_doe_filled Let_def)

text \<open>
  C1.  Root-level identity fields (name, email, phone, address) are folded into a
  synthesized \<^verbatim>\<open>account\<close> group exactly when the caller supplied no account
  (\<^verbatim>\<open>data.account === undefined\<close>, which for JSON input is the absence of the key): then no
  identity field stays at the root and \<^verbatim>\<open>account\<close> holds precisely the non-empty ones,
  normalized.  When an account was supplied, even an empty object, each non-empty identity
  field stays at the root, normalized, and \<^verbatim>\<open>account\<close> holds only the caller's own group,
  normalized and cleaned, or is absent when that is empty.  The two examples of the
  specification are the last two conjuncts.
\<close>

theorem buildRequest_account_folding:
  assumes "distinct (map fst data)"
  shows
   "(\<not> hasAccountGroup data \<longrightarrow>
       (\<forall>k \<in> set dataFields. map_of (buildRequest parse data) k = None) \<and>
       map_of (buildRequest parse data) ''account'' =
         (if foldedFields data = [] then None else Some (JObj (foldedFields data)))) \<and>
    (hasAccountGroup data \<longrightarrow>
       (\<forall>k \<in> set dataFields.
           map_of (buildRequest parse data) k =
             (case map_of data k of
                None \<Rightarrow> None
              | Some v \<Rightarrow> if isEmptyValue v \<or> isEmptyValue (normalizeField k v) then None
                          else Some (normalizeField k v))) \<and>
       map_of (buildRequest parse data) ''account'' =
         (let supplied = get (JObj data) ''account'';
              cleaned = cleanObject (normalizeGroupFields supplied)
          in if isEmptyValue supplied \<or> isEmptyValue cleaned then None else Some cleaned)) \<and>
    buildRequest parse [(''name'', JStr ''Jo Doe'')] =
      [(''action'', JObj [(''type'', JStr ''purchase'')]),
       (''account'', JObj [(''name'', JObj [(''raw'', JStr ''Jo Doe'')])])] \<and>
    buildRequest parse [(''account'', JObj []), (''name'', JStr ''Jo Doe'')] =
      [(''action'', JObj [(''type'', JStr ''purchase'')]),
       (''name'', JObj [(''raw'', JStr ''Jo Doe'')])]"
proof -
  let ?req0 = "[(''action'', if truthy (get (JObj data) ''action'')
                            then get (JObj data) ''action'' else defaultAction)]"
  let ?st = "\<lambda>h. foldl (processField parse h) (?req0, []) data"
  have root: "map_of (fst (?st h)) k =
     (case map_of data k of
        None \<Rightarrow> map_of ?req0 k
      | Some v \<Rightarrow>
          (case map_of (fst (processField parse h ([], []) (k, v))) k of
             None \<Rightarrow> map_of ?req0 k | Some x \<Rightarrow> Some x))" for h k
    by (rule foldl_processField_root [OF assms])
  have no_group: ?thesis if h: "\<not> hasAccountGroup data"
  proof -
    have acc: "snd (?st False) = foldedFields data"
      using foldl_processField_account_False [of "[]" data parse ?req0] assms by simp
    have a: "map_of (buildRequest parse data) k = None" if k: "k \<in> set dataFields" for k
      using h k root [of False k]
      by (simp add: map_of_buildRequest dataFields_keys [OF k] processField_root_False [OF k]
          split: option.splits)
    have "map_of (fst (?st False)) ''account'' = None"
    proof (cases "map_of data ''account''")
      case None
      with root [of False "''account''"] show ?thesis by simp
    next
      case (Some v)
      with h have "v = JUndefined" by (simp add: hasAccountGroup_def)
      with Some root [of False "''account''"] show ?thesis
        by (simp add: processField_root_account)
    qed
    then have b: "map_of (buildRequest parse data) ''account'' =
         (if foldedFields data = [] then None else Some (JObj (foldedFields data)))"
      using h acc by (simp add: map_of_buildRequest)
    from a b h show ?thesis
      using buildRequest_root_name buildRequest_empty_account by blast
  qed
  have with_group: ?thesis if h: "hasAccountGroup data"
  proof -
    have acc: "snd (?st True) = []"
      by (rule foldl_processField_account_True)
    have a: "map_of (buildRequest parse data) k =
             (case map_of data k of
                None \<Rightarrow> None
              | Some v \<Rightarrow> if isEmptyValue v \<or> isEmptyValue (normalizeField k v) then None
                          else Some (normalizeField k v))" if k: "k \<in> set dataFields" for k
      using h k root [of True k]
      by (simp add: map_of_buildRequest dataFields_keys [OF k] processField_root_True [OF k]
          split: option.splits)
    from h obtain v where v: "map_of data ''account'' = Some v" "get (JObj data) ''account'' = v"
      by (auto simp: hasAccountGroup_def split: option.splits)
    have b: "map_of (buildRequest parse data) ''account'' =
         (let supplied = get (JObj data) ''account'';
              cleaned = cleanObject (normalizeGroupFields supplied)
          in if isEmptyValue supplied \<or> isEmptyValue cleaned then None else Some cleaned)"
      using h v root [of True "''account''"]
      by (simp add: map_of_buildRequest processField_root_account Let_def)
    from a b h show ?thesis
      using buildRequest_root_name buildRequest_empty_account by blast
  qed
  from no_group with_group show ?thesis by blast
qed

lemma na_placeholder: "placeholder ''N/A''"
  by code_simp

theorem buildRequest_account_folding_witness:
  "map_of (buildRequest (\<lambda>s. None) [(''name'', JStr ''Jo Doe''), (''email'', JStr ''N/A'')])
     ''name'' = None \<and>
   map_of (buildRequest (\<lambda>s. None) [(''name'', JStr ''Jo Doe''), (''email'', JStr ''N/A'')])
     ''account'' = Some (JObj [(''name'', JObj [(''raw'', JStr ''Jo Doe'')])]) \<and>
   map_of (buildRequest (\<lambda>s. None) [(''account'', JNull), (''name'', JStr ''Jo Doe'')])
     ''name'' = Some (JObj [(''raw'', JStr ''Jo Doe'')]) \<and>
   map_of (buildRequest (\<lambda>s. None) [(''account'', JNull), (''name'', JStr ''Jo Doe'')])
     ''account'' = None"
proof -
  let ?d1 = "[(''name'', JStr ''Jo Doe''), (''email'', JStr ''N/A'')]"
  let ?d2 = "[(''account'', JNull), (''name'', JStr ''Jo Doe'')]"
  have d1: "distinct (map fst ?d1)" and d2: "distinct (map fst ?d2)" by simp_all
  have h1: "\<not> hasAccountGroup ?d1" and h2: "hasAccountGroup ?d2"
    by (simp_all add: hasAccountGroup_def)
  have n: "''name'' \<in> set dataFields" by (simp add: dataFields_def)
  have f1: "foldedFields ?d1 = [(''name'', JObj [(''raw'', JStr ''Jo Doe'')])]"
    by (simp add: foldedFields_def dataFields_def normalizeField_def jo_doe_filled na_placeholder)
  have n2: "normalizeField ''name'' (JStr ''Jo Doe'') = JObj [(''raw'', JStr ''Jo Doe'')]"
    by (simp add: normalizeField_def)
  from buildRequest_account_folding [OF d1, of "\<lambda>s. None"] h1 n f1
  have "map_of (buildRequest (\<lambda>s. None) ?d1) ''name'' = None"
    and "map_of (buildRequest (\<lambda>s. None) ?d1) ''account'' =
           Some (JObj [(''name'', JObj [(''raw'', JStr ''Jo Doe'')])])"
    by simp_all
  moreover from buildRequest_account_folding [OF d2, of "\<lambda>s. None"] h2 n n2
  have "map_of (buildRequest (\<lambda>s. None) ?d2) ''name'' = Some (JObj [(''raw'', JStr ''Jo Doe'')])"
    and "map_of (buildRequest (\<lambda>s. None) ?d2) ''account'' = None"
    by (simp_all add: jo_doe_filled)
  ultimately show ?thesis by simp
qed

section \<open>Properties of the rate limiter\<close>

declare makeRequest.simps [simp del]

lemma applyRateLimit_requests:
  "requests (fst (applyRateLimit c w)) =
     filter (\<lambda>timestamp. timestamp > clock w - 1000) (requests c) @ [clock w]"
  by (simp add: applyRateLimit_def Let_def)

lemma applyRateLimit_world:
  "snd (applyRateLimit c w) =
     (let kept = filter (\<lambda>timestamp. timestamp > clock w - 1000) (requests c)
      in if rateLimitQPS c \<le> int (length kept) \<and> kept \<noteq> [] \<and> 0 < 1010 - (clock w - hd kept)
         then sleep (1010 - (clock w - hd kept)) w else w)"
proof -
  define kept where "kept = filter (\<lambda>timestamp. timestamp > clock w - 1000) (requests c)"
  have arith: "1000 - (clock w - x) + 10 = 1010 - (clock w - x)" for x :: int
    by simp
  have "snd (applyRateLimit c w) =
     (if rateLimitQPS c \<le> int (length kept) \<and> kept \<noteq> [] \<and> 0 < 1010 - (clock w - hd kept)
      then sleep (1010 - (clock w - hd kept)) w else w)"
    unfolding applyRateLimit_def Let_def kept_def [symmetric]
    by (cases kept) (simp_all add: arith del: diff_diff_eq2)
  then show ?thesis by (simp add: kept_def Let_def)
qed

lemma applyRateLimit_config:
  "rateLimitQPS (fst (applyRateLimit c w)) = rateLimitQPS c"
  "apiKey (fst (applyRateLimit c w)) = apiKey c"
  "baseUrl (fst (applyRateLimit c w)) = baseUrl c"
  "maxRetries (fst (applyRateLimit c w)) = maxRetries c"
  "retryDelay (fst (applyRateLimit c w)) = retryDelay c"
  by (simp_all add: applyRateLimit_def Let_def)

lemma applyRateLimit_fetched: "fetched (snd (applyRateLimit c w)) = fetched w"
  by (simp add: applyRateLimit_world Let_def sleep_def)

lemma admissions_fresh:
  "requests c = [] \<Longrightarrow> rateLimitQPS c = 10 \<Longrightarrow> clock w = 0 \<Longrightarrow> n \<le> 10 \<Longrightarrow>
     admissions n (c, w) = (c\<lparr>requests := replicate n 0\<rparr>, w)"
proof (induction n)
  case 0
  then show ?case by simp
next
  case (Suc n)
  then have "admissions n (c, w) = (c\<lparr>requests := replicate n 0\<rparr>, w)" by simp
  moreover have "applyRateLimit (c\<lparr>requests := replicate n 0\<rparr>) w =
                 (c\<lparr>requests := replicate n 0 @ [0]\<rparr>, w)"
    using Suc.prems by (simp add: applyRateLimit_def Let_def)
  ultimately show ?case by (simp add: replicate_append_same)
qed

lemma timerDelay_in_range: "1 \<le> ms \<Longrightarrow> ms \<le> 2147483647 \<Longrightarrow> timerDelay ms = ms"
  by (simp add: timerDelay_def)

lemma timerDelay_positive: "1 \<le> timerDelay ms"
  by (simp add: timerDelay_def)

lemma applyRateLimit_clock_le: "clock w \<le> clock (snd (applyRateLimit c w))"
  using timerDelay_positive [of "1010 - (clock w - hd (filter (\<lambda>timestamp. timestamp > clock w - 1000) (requests c)))"]
  by (simp add: applyRateLimit_world Let_def sleep_def)

text \<open>
  C6, as the code has it.  An admission check reads the clock once (\<open>now\<close>), prunes the
  timestamps that are not newer than \<open>now - 1000\<close>, and, when the remaining count has reached
  the ceiling, suspends once, by one call of \<^verbatim>\<open>sleep\<close>, for \<open>1000 - (now - oldest) + 10\<close>
  milliseconds if that is positive.  It does not check again after the wait, and the
  timestamp it records is \<open>now\<close>, the time of entry.  The timestamps of the window are
  readings of the same clock; as long as none of them is later than \<open>now\<close>, which every
  admission check preserves, the wait is at most 1010 ms and the check returns exactly that
  much later.  With ceiling 10 and ten admissions at time 0, an eleventh admission asked for
  at a time \<open>t\<close> below 1000 ms is granted at 1010 ms, and is recorded as \<open>t\<close>.
\<close>

theorem applyRateLimit_admission:
  "requests (fst (applyRateLimit c w)) =
     filter (\<lambda>timestamp. timestamp > clock w - 1000) (requests c) @ [clock w] \<and>
   snd (applyRateLimit c w) =
     (let kept = filter (\<lambda>timestamp. timestamp > clock w - 1000) (requests c)
      in if rateLimitQPS c \<le> int (length kept) \<and> kept \<noteq> [] \<and> 0 < 1000 - (clock w - hd kept) + 10
         then sleep (1000 - (clock w - hd kept) + 10) w else w) \<and>
   ((\<forall>timestamp \<in> set (requests c). timestamp \<le> clock w) \<longrightarrow>
      clock (snd (applyRateLimit c w)) =
        (let kept = filter (\<lambda>timestamp. timestamp > clock w - 1000) (requests c)
         in if rateLimitQPS c \<le> int (length kept) \<and> kept \<noteq> [] \<and>
               0 < 1000 - (clock w - hd kept) + 10
            then clock w + (1000 - (clock w - hd kept) + 10) else clock w) \<and>
      (\<forall>timestamp \<in> set (requests (fst (applyRateLimit c w))).
         timestamp \<le> clock (snd (applyRateLimit c w)))) \<and>
   (requests c0 = [] \<and> rateLimitQPS c0 = 10 \<and> clock w0 = 0 \<and> 0 \<le> t \<and> t < 1000 \<longrightarrow>
      (case admissions 10 (c0, w0) of
         (c10, w10) \<Rightarrow>
           requests c10 = replicate 10 0 \<and> clock w10 = 0 \<and>
           clock (snd (applyRateLimit c10 (w10\<lparr>clock := t\<rparr>))) = 1010 \<and>
           last (requests (fst (applyRateLimit c10 (w10\<lparr>clock := t\<rparr>)))) = t))"
proof (intro conjI impI)
  show "requests (fst (applyRateLimit c w)) =
     filter (\<lambda>timestamp. timestamp > clock w - 1000) (requests c) @ [clock w]"
    by (rule applyRateLimit_requests)
  show "snd (applyRateLimit c w) =
     (let kept = filter (\<lambda>timestamp. timestamp > clock w - 1000) (requests c)
      in if rateLimitQPS c \<le> int (length kept) \<and> kept \<noteq> [] \<and> 0 < 1000 - (clock w - hd kept) + 10
         then sleep (1000 - (clock w - hd kept) + 10) w else w)"
  proof -
    have arith: "1000 - (clock w - x) + 10 = 1010 - (clock w - x)" for x :: int
      by simp
    show ?thesis
      unfolding applyRateLimit_world Let_def arith by (rule refl)
  qed
next
  assume past: "\<forall>timestamp \<in> set (requests c). timestamp \<le> clock w"
  define kept where "kept = filter (\<lambda>timestamp. timestamp > clock w - 1000) (requests c)"
  have short: "timerDelay (1010 - (clock w - hd kept)) = 1010 - (clock w - hd kept)"
    if "kept \<noteq> []" "0 < 1010 - (clock w - hd kept)"
  proof -
    from that(1) have "hd kept \<in> set kept" by simp
    then have "hd kept \<in> set (requests c)" by (simp add: kept_def)
    with past have "hd kept \<le> clock w" by blast
    with that(2) show ?thesis by (intro timerDelay_in_range) simp_all
  qed
  have "clock (snd (applyRateLimit c w)) =
        (if rateLimitQPS c \<le> int (length kept) \<and> kept \<noteq> [] \<and> 0 < 1010 - (clock w - hd kept)
         then clock w + (1010 - (clock w - hd kept)) else clock w)"
    using short by (simp add: applyRateLimit_world Let_def sleep_def kept_def [symmetric])
  then show "clock (snd (applyRateLimit c w)) =
        (let kept = filter (\<lambda>timestamp. timestamp > clock w - 1000) (requests c)
         in if rateLimitQPS c \<le> int (length kept) \<and> kept \<noteq> [] \<and>
               0 < 1000 - (clock w - hd kept) + 10
            then clock w + (1000 - (clock w - hd kept) + 10) else clock w)"
    by (simp add: Let_def kept_def)
  show "\<forall>timestamp \<in> set (requests (fst (applyRateLimit c w))).
         timestamp \<le> clock (snd (applyRateLimit c w))"
    using past applyRateLimit_clock_le [of w c] by (auto simp: applyRateLimit_requests)
next
  assume a: "requests c0 = [] \<and> rateLimitQPS c0 = 10 \<and> clock w0 = 0 \<and> 0 \<le> t \<and> t < 1000"
  then have ten: "admissions 10 (c0, w0) = (c0\<lparr>requests := replicate 10 0\<rparr>, w0)"
    by (intro admissions_fresh) simp_all
  have kept: "filter (\<lambda>timestamp. timestamp > t - 1000) (replicate 10 (0::int)) = replicate 10 0"
    using a by simp
  have hd10: "hd (replicate 10 (0::int)) = 0"
    by (simp add: numeral_eq_Suc)
  from a have "timerDelay (1010 - t) = 1010 - t"
    by (intro timerDelay_in_range) simp_all
  then show "case admissions 10 (c0, w0) of
         (c10, w10) \<Rightarrow>
           requests c10 = replicate 10 0 \<and> clock w10 = 0 \<and>
           clock (snd (applyRateLimit c10 (w10\<lparr>clock := t\<rparr>))) = 1010 \<and>
           last (requests (fst (applyRateLimit c10 (w10\<lparr>clock := t\<rparr>)))) = t"
    using a by (simp add: ten applyRateLimit_requests applyRateLimit_world kept hd10 sleep_def)
qed

theorem applyRateLimit_admission_witness:
  "clock (snd (applyRateLimit
                 (fst (admissions 10
                    (\<lparr>apiKey = ''k'', baseUrl = ''u'', maxRetries = 3, retryDelay = 1000,
                       timeout = 30000, rateLimitQPS = 10, requests = [], lastReset = 0\<rparr>,
                     \<lparr>clock = 0, slept = [], fetched = []\<rparr>)))
                 ((snd (admissions 10
                    (\<lparr>apiKey = ''k'', baseUrl = ''u'', maxRetries = 3, retryDelay = 1000,
                       timeout = 30000, rateLimitQPS = 10, requests = [], lastReset = 0\<rparr>,
                     \<lparr>clock = 0, slept = [], fetched = []\<rparr>)))\<lparr>clock := 250\<rparr>))) = 1010 \<and>
   clock (snd (applyRateLimit
     \<lparr>apiKey = ''k'', baseUrl = ''u'', maxRetries = 3, retryDelay = 1000, timeout = 30000,
        rateLimitQPS = 2, requests = [100, 300], lastReset = 0\<rparr>
     \<lparr>clock = 400, slept = [], fetched = []\<rparr>)) = 1110"
proof -
  let ?c = "\<lparr>apiKey = ''k'', baseUrl = ''u'', maxRetries = 3, retryDelay = 1000,
              timeout = 30000, rateLimitQPS = 10, requests = [], lastReset = 0\<rparr>"
  let ?w = "\<lparr>clock = 0, slept = [], fetched = []\<rparr>"
  let ?d = "\<lparr>apiKey = ''k'', baseUrl = ''u'', maxRetries = 3, retryDelay = 1000,
              timeout = 30000, rateLimitQPS = 2, requests = [100, 300], lastReset = 0\<rparr>"
  let ?v = "\<lparr>clock = 400, slept = [], fetched = []\<rparr>"
  have h: "requests ?c = [] \<and> rateLimitQPS ?c = 10 \<and> clock ?w = 0 \<and> (0::int) \<le> 250 \<and>
           (250::int) < 1000"
    by simp
  have past: "\<forall>timestamp \<in> set (requests ?d). timestamp \<le> clock ?v"
    by simp
  from applyRateLimit_admission [where c = ?d and w = ?v and ?c0.0 = ?c and ?w0.0 = ?w and t = 250]
       h past
  have "clock (snd (applyRateLimit (fst (admissions 10 (?c, ?w)))
                      ((snd (admissions 10 (?c, ?w)))\<lparr>clock := 250\<rparr>))) = 1010"
    and "clock (snd (applyRateLimit ?d ?v)) = 1110"
    by (simp_all add: case_prod_unfold sleep_def timerDelay_def)
  then show ?thesis by blast
qed

text \<open>
  The claim as worded has the limiter record the time after the wait.  With ceiling 10 and
  ten timestamps at 0, a check entered at time 0 returns at 1010 and records 0.
\<close>

theorem applyRateLimit_timestamp_counterexample:
  "clock (snd (applyRateLimit
     \<lparr>apiKey = ''k'', baseUrl = ''u'', maxRetries = 3, retryDelay = 1000, timeout = 30000,
        rateLimitQPS = 10, requests = [0, 0, 0, 0, 0, 0, 0, 0, 0, 0], lastReset = 0\<rparr>
     \<lparr>clock = 0, slept = [], fetched = []\<rparr>)) = 1010 \<and>
   requests (fst (applyRateLimit
     \<lparr>apiKey = ''k'', baseUrl = ''u'', maxRetries = 3, retryDelay = 1000, timeout = 30000,
        rateLimitQPS = 10, requests = [0, 0, 0, 0, 0, 0, 0, 0, 0, 0], lastReset = 0\<rparr>
     \<lparr>clock = 0, slept = [], fetched = []\<rparr>)) = [0, 0, 0, 0, 0, 0, 0, 0, 0, 0, 0]"
  by (simp add: applyRateLimit_def sleep_def timerDelay_def)

section \<open>Properties of the transport\<close>

lemma makeRequest_Return:
  "attemptOutcome c attempt (net (length (fetched w))) = Return data \<Longrightarrow>
     makeRequest c net url verb content attempt w =
       (Inr data, w\<lparr>fetched := fetched w @ [(url, verb, content)]\<rparr>)"
  by (simp add: makeRequest.simps [of c net url verb content attempt w])

lemma makeRequest_Throw:
  "attemptOutcome c attempt (net (length (fetched w))) = Throw e \<Longrightarrow>
     makeRequest c net url verb content attempt w =
       (Inl e, w\<lparr>fetched := fetched w @ [(url, verb, content)]\<rparr>)"
  by (simp add: makeRequest.simps [of c net url verb content attempt w])

lemma makeRequest_Retry:
  "attemptOutcome c attempt (net (length (fetched w))) = Retry delay \<Longrightarrow>
     makeRequest c net url verb content attempt w =
       makeRequest c net url verb content (attempt + 1)
         (sleep delay (w\<lparr>fetched := fetched w @ [(url, verb, content)]\<rparr>))"
  by (simp add: makeRequest.simps [of c net url verb content attempt w])

lemma attemptOutcome_Retry_le:
  "attemptOutcome c attempt outcome = Retry delay \<Longrightarrow> attempt \<le> maxRetries c"
  by (auto simp: attemptOutcome_def onNetworkError_def
      split: fetch_outcome.splits if_splits sum.splits)

lemma attemptOutcome_server_error:
  "500 \<le> status \<Longrightarrow> attempt \<le> maxRetries c \<Longrightarrow>
     attemptOutcome c attempt (Responded status retryAfter payload) = Retry (retryDelay c * attempt)"
  by (simp add: attemptOutcome_def)

lemma attemptOutcome_exhausted:
  "500 \<le> status \<Longrightarrow> \<not> attempt \<le> maxRetries c \<Longrightarrow>
     \<exists>e. attemptOutcome c attempt (Responded status retryAfter payload) = Throw e"
  by (cases payload) (simp_all add: attemptOutcome_def onNetworkError_def)

lemma attemptOutcome_ok:
  "attemptOutcome c attempt (Responded 200 retryAfter (Inr data)) = Return data"
  by (simp add: attemptOutcome_def)

lemma fetched_sleep [simp]: "fetched (sleep delay w) = fetched w"
  by (simp add: sleep_def)

lemma makeRequest_tries:
  "length (fetched (snd (makeRequest c net url verb content attempt w))) \<le>
     length (fetched w) + nat (max 1 (maxRetries c + 2 - attempt))"
proof (induction c net url verb content attempt w rule: makeRequest.induct)
  case (1 c net url verb content attempt w)
  let ?w = "w\<lparr>fetched := fetched w @ [(url, verb, content)]\<rparr>"
  show ?case
  proof (cases "attemptOutcome c attempt (net (length (fetched w)))")
    case (Return data)
    then show ?thesis by (simp add: makeRequest_Return)
  next
    case (Throw e)
    then show ?thesis by (simp add: makeRequest_Throw)
  next
    case (Retry delay)
    then have le: "attempt \<le> maxRetries c" by (rule attemptOutcome_Retry_le)
    have "length (fetched (snd (makeRequest c net url verb content (attempt + 1) (sleep delay ?w)))) \<le>
          length (fetched (sleep delay ?w)) + nat (max 1 (maxRetries c + 2 - (attempt + 1)))"
      using Retry by (intro "1.IH") simp_all
    with le Retry show ?thesis by (simp add: makeRequest_Retry)
  qed
qed

lemma makeRequest_fetched:
  "\<exists>k. fetched (snd (makeRequest c net url verb content attempt w)) =
         fetched w @ replicate (Suc k) (url, verb, content)"
proof (induction c net url verb content attempt w rule: makeRequest.induct)
  case (1 c net url verb content attempt w)
  let ?w = "w\<lparr>fetched := fetched w @ [(url, verb, content)]\<rparr>"
  show ?case
  proof (cases "attemptOutcome c attempt (net (length (fetched w)))")
    case (Return data)
    then have "fetched (snd (makeRequest c net url verb content attempt w)) =
               fetched w @ replicate (Suc 0) (url, verb, content)"
      by (simp add: makeRequest_Return)
    then show ?thesis by blast
  next
    case (Throw e)
    then have "fetched (snd (makeRequest c net url verb content attempt w)) =
               fetched w @ replicate (Suc 0) (url, verb, content)"
      by (simp add: makeRequest_Throw)
    then show ?thesis by blast
  next
    case (Retry delay)
    have "\<exists>k. fetched (snd (makeRequest c net url verb content (attempt + 1) (sleep delay ?w))) =
               fetched (sleep delay ?w) @ replicate (Suc k) (url, verb, content)"
      using Retry by (intro "1.IH") simp_all
    then obtain k where
      "fetched (snd (makeRequest c net url verb content (attempt + 1) (sleep delay ?w))) =
       fetched w @ replicate (Suc (Suc k)) (url, verb, content)"
      by auto
    with Retry have "fetched (snd (makeRequest c net url verb content attempt w)) =
       fetched w @ replicate (Suc (Suc k)) (url, verb, content)"
      by (simp add: makeRequest_Retry)
    then show ?thesis by blast
  qed
qed

lemma makeRequest_recovers:
  assumes "maxRetries c = 3"
    and "net (length (fetched w)) = Responded s1 h1 p1" "500 \<le> s1"
    and "net (length (fetched w) + 1) = Responded s2 h2 p2" "500 \<le> s2"
    and "net (length (fetched w) + 2) = Responded 200 h3 (Inr data)"
  shows "makeRequest c net url verb content 1 w =
           (Inr data,
            w\<lparr>clock := clock w + timerDelay (retryDelay c * 1) + timerDelay (retryDelay c * 2),
              slept := slept w @ [retryDelay c * 1, retryDelay c * 2],
              fetched := fetched w @ replicate 3 (url, verb, content)\<rparr>)"
proof -
  let ?r = "(url, verb, content)"
  let ?w1 = "sleep (retryDelay c * 1) (w\<lparr>fetched := fetched w @ [?r]\<rparr>)"
  let ?w2 = "sleep (retryDelay c * 2) (?w1\<lparr>fetched := fetched ?w1 @ [?r]\<rparr>)"
  have "attemptOutcome c 1 (net (length (fetched w))) = Retry (retryDelay c * 1)"
    using assms by (simp add: attemptOutcome_server_error)
  then have one: "makeRequest c net url verb content 1 w = makeRequest c net url verb content 2 ?w1"
    using makeRequest_Retry [of c 1 net w "retryDelay c * 1" url verb content] by simp
  have "attemptOutcome c 2 (net (length (fetched ?w1))) = Retry (retryDelay c * 2)"
    using assms by (simp add: attemptOutcome_server_error)
  then have two: "makeRequest c net url verb content 2 ?w1 = makeRequest c net url verb content 3 ?w2"
    using makeRequest_Retry [of c 2 net ?w1 "retryDelay c * 2" url verb content] by simp
  have "attemptOutcome c 3 (net (length (fetched ?w2))) = Return data"
    using assms by (simp add: attemptOutcome_ok)
  then have three: "makeRequest c net url verb content 3 ?w2 =
                    (Inr data, ?w2\<lparr>fetched := fetched ?w2 @ [?r]\<rparr>)"
    by (rule makeRequest_Return)
  have "?w2\<lparr>fetched := fetched ?w2 @ [?r]\<rparr> =
        w\<lparr>clock := clock w + timerDelay (retryDelay c * 1) + timerDelay (retryDelay c * 2),
          slept := slept w @ [retryDelay c * 1, retryDelay c * 2],
          fetched := fetched w @ replicate 3 ?r\<rparr>"
    by (simp add: sleep_def numeral_3_eq_3)
  with one two three show ?thesis by simp
qed

lemma makeRequest_always_failing:
  assumes "maxRetries c = 3" and "\<And>n. \<exists>s h p. net n = Responded s h p \<and> 500 \<le> s"
  shows "length (fetched (snd (makeRequest c net url verb content 1 w))) = length (fetched w) + 4"
proof -
  let ?r = "(url, verb, content)"
  have retry: "makeRequest c net url verb content a v =
               makeRequest c net url verb content (a + 1)
                 (sleep (retryDelay c * a) (v\<lparr>fetched := fetched v @ [?r]\<rparr>))"
    if "a \<le> 3" for a v
  proof -
    from assms(2) obtain s h p where "net (length (fetched v)) = Responded s h p" "500 \<le> s"
      by blast
    with that assms(1) have "attemptOutcome c a (net (length (fetched v))) = Retry (retryDelay c * a)"
      by (simp add: attemptOutcome_server_error)
    then show ?thesis by (rule makeRequest_Retry)
  qed
  have stop: "length (fetched (snd (makeRequest c net url verb content 4 v))) = length (fetched v) + 1"
    for v
  proof -
    from assms(2) obtain s h p where n: "net (length (fetched v)) = Responded s h p" "500 \<le> s"
      by blast
    from attemptOutcome_exhausted [OF n(2), of 4 c h p] assms(1)
    obtain e where "attemptOutcome c 4 (net (length (fetched v))) = Throw e"
      using n(1) by auto
    then show ?thesis by (simp add: makeRequest_Throw)
  qed
  show ?thesis
    by (simp add: retry [of 1] retry [of 2] retry [of 3] stop)
qed

lemma newClient_configured:
  "cfg_apiKey config \<noteq> [] \<Longrightarrow>
     \<exists>c'. newClient config now = Inr c' \<and>
          maxRetries c' = (case cfg_maxRetries config of Some n \<Rightarrow> n | None \<Rightarrow> 3) \<and>
          retryDelay c' = (case cfg_retryDelay config of Some n \<Rightarrow> n | None \<Rightarrow> 1000)"
  by (simp add: newClient_def)

lemma timerDelay_least: "ms \<le> 2147483647 \<Longrightarrow> ms \<le> timerDelay ms"
  by (simp add: timerDelay_def)

text \<open>
  C7, as the code has it.  The constructor takes \<^verbatim>\<open>maxRetries\<close> and \<^verbatim>\<open>retryDelay\<close> from the
  configuration, 3 and 1000 when it has none.  A call makes at most \<open>maxRetries + 1\<close>
  exchanges, so at most 4 with 3 retries, and exactly 4 when every one of them ends in a
  status of 500 or more.  After attempt number \<open>attempt\<close> fails with such a status, with a
  network fault, or with a 429 that names no \<^verbatim>\<open>Retry-After\<close>, and a retry is left, the call
  sleeps \<open>retryDelay \<times> attempt\<close>.  When the first two exchanges of a call with 3 retries answer
  with a status of 500 or more and the third with 200, the call returns the third body after
  exactly three exchanges, having asked to sleep \<open>retryDelay \<times> 1\<close> and \<open>retryDelay \<times> 2\<close>; each
  sleep lasts what the timer makes of its delay.  At least the sum of the two delays has
  then passed on the clock provided \<open>retryDelay \<times> 2\<close> is within the timer's range, that is, at
  most 2147483647 ms.
\<close>

theorem makeRequest_linear_backoff:
  "(cfg_apiKey config \<noteq> [] \<longrightarrow>
      (\<exists>c'. newClient config now = Inr c' \<and>
            maxRetries c' = (case cfg_maxRetries config of Some n \<Rightarrow> n | None \<Rightarrow> 3) \<and>
            retryDelay c' = (case cfg_retryDelay config of Some n \<Rightarrow> n | None \<Rightarrow> 1000))) \<and>
   length (fetched (snd (makeRequest c net url verb content 1 w))) \<le>
     length (fetched w) + nat (max 1 (maxRetries c + 1)) \<and>
   (maxRetries c = 3 \<longrightarrow>
      length (fetched (snd (makeRequest c net url verb content 1 w))) \<le> length (fetched w) + 4) \<and>
   (maxRetries c = 3 \<and> (\<forall>n. \<exists>s h p. net n = Responded s h p \<and> 500 \<le> s) \<longrightarrow>
      length (fetched (snd (makeRequest c net url verb content 1 w))) = length (fetched w) + 4) \<and>
   (attempt \<le> maxRetries c \<and> 500 \<le> status \<longrightarrow>
      attemptOutcome c attempt (Responded status retryAfter payload) =
        Retry (retryDelay c * attempt)) \<and>
   (attempt \<le> maxRetries c \<longrightarrow>
      attemptOutcome c attempt (Failed msg) = Retry (retryDelay c * attempt)) \<and>
   (attempt \<le> maxRetries c \<longrightarrow>
      attemptOutcome c attempt (Responded 429 None payload) = Retry (retryDelay c * attempt)) \<and>
   (maxRetries c = 3 \<and>
    net (length (fetched w)) = Responded s1 h1 p1 \<and> 500 \<le> s1 \<and>
    net (length (fetched w) + 1) = Responded s2 h2 p2 \<and> 500 \<le> s2 \<and>
    net (length (fetched w) + 2) = Responded 200 h3 (Inr data) \<longrightarrow>
      fst (makeRequest c net url verb content 1 w) = Inr data \<and>
      fetched (snd (makeRequest c net url verb content 1 w)) =
        fetched w @ replicate 3 (url, verb, content) \<and>
      slept (snd (makeRequest c net url verb content 1 w)) =
        slept w @ [retryDelay c * 1, retryDelay c * 2] \<and>
      clock (snd (makeRequest c net url verb content 1 w)) =
        clock w + timerDelay (retryDelay c * 1) + timerDelay (retryDelay c * 2) \<and>
      (retryDelay c * 2 \<le> 2147483647 \<longrightarrow>
         clock (snd (makeRequest c net url verb content 1 w)) - clock w \<ge>
           retryDelay c * 1 + retryDelay c * 2))"
proof (intro conjI impI)
  assume "cfg_apiKey config \<noteq> []"
  then show "\<exists>c'. newClient config now = Inr c' \<and>
            maxRetries c' = (case cfg_maxRetries config of Some n \<Rightarrow> n | None \<Rightarrow> 3) \<and>
            retryDelay c' = (case cfg_retryDelay config of Some n \<Rightarrow> n | None \<Rightarrow> 1000)"
    by (rule newClient_configured)
next
  from makeRequest_tries [of c net url verb content 1 w]
  show "length (fetched (snd (makeRequest c net url verb content 1 w))) \<le>
     length (fetched w) + nat (max 1 (maxRetries c + 1))"
    by simp
next
  assume "maxRetries c = 3"
  with makeRequest_tries [of c net url verb content 1 w]
  show "length (fetched (snd (makeRequest c net url verb content 1 w))) \<le> length (fetched w) + 4"
    by simp
next
  assume "maxRetries c = 3 \<and> (\<forall>n. \<exists>s h p. net n = Responded s h p \<and> 500 \<le> s)"
  then show "length (fetched (snd (makeRequest c net url verb content 1 w))) = length (fetched w) + 4"
    by (intro makeRequest_always_failing) blast+
next
  assume "attempt \<le> maxRetries c \<and> 500 \<le> status"
  then show "attemptOutcome c attempt (Responded status retryAfter payload) =
             Retry (retryDelay c * attempt)"
    by (simp add: attemptOutcome_server_error)
next
  assume "attempt \<le> maxRetries c"
  then show "attemptOutcome c attempt (Failed msg) = Retry (retryDelay c * attempt)"
    by (simp add: attemptOutcome_def onNetworkError_def)
next
  assume "attempt \<le> maxRetries c"
  then show "attemptOutcome c attempt (Responded 429 None payload) = Retry (retryDelay c * attempt)"
    by (simp add: attemptOutcome_def)
next
  assume a: "maxRetries c = 3 \<and>
    net (length (fetched w)) = Responded s1 h1 p1 \<and> 500 \<le> s1 \<and>
    net (length (fetched w) + 1) = Responded s2 h2 p2 \<and> 500 \<le> s2 \<and>
    net (length (fetched w) + 2) = Responded 200 h3 (Inr data)"
  then have r: "makeRequest c net url verb content 1 w =
           (Inr data,
            w\<lparr>clock := clock w + timerDelay (retryDelay c * 1) + timerDelay (retryDelay c * 2),
              slept := slept w @ [retryDelay c * 1, retryDelay c * 2],
              fetched := fetched w @ replicate 3 (url, verb, content)\<rparr>)"
    by (intro makeRequest_recovers) blast+
  show "fst (makeRequest c net url verb content 1 w) = Inr data"
    by (simp add: r)
  show "fetched (snd (makeRequest c net url verb content 1 w)) =
        fetched w @ replicate 3 (url, verb, content)"
    by (simp add: r)
  show "slept (snd (makeRequest c net url verb content 1 w)) =
        slept w @ [retryDelay c * 1, retryDelay c * 2]"
    by (simp add: r)
  show "clock (snd (makeRequest c net url verb content 1 w)) =
        clock w + timerDelay (retryDelay c * 1) + timerDelay (retryDelay c * 2)"
    by (simp add: r)
  assume "retryDelay c * 2 \<le> 2147483647"
  then have "retryDelay c * 1 \<le> timerDelay (retryDelay c * 1)"
    and "retryDelay c * 2 \<le> timerDelay (retryDelay c * 2)"
    by (simp_all add: timerDelay_def)
  then show "clock (snd (makeRequest c net url verb content 1 w)) - clock w \<ge>
        retryDelay c * 1 + retryDelay c * 2"
    by (simp add: r)
qed

theorem makeRequest_linear_backoff_witness:
  "fst (makeRequest
          \<lparr>apiKey = ''k'', baseUrl = ''u'', maxRetries = 3, retryDelay = 1000, timeout = 30000,
             rateLimitQPS = 10, requests = [], lastReset = 0\<rparr>
          (\<lambda>n. if n < 2 then Responded 503 None (Inr JNull)
                else Responded 200 None (Inr (JObj [(''score'', JNum 5)])))
          ''u'' ''POST'' JNull 1 \<lparr>clock = 0, slept = [], fetched = []\<rparr>) =
     Inr (JObj [(''score'', JNum 5)]) \<and>
   slept (snd (makeRequest
          \<lparr>apiKey = ''k'', baseUrl = ''u'', maxRetries = 3, retryDelay = 1000, timeout = 30000,
             rateLimitQPS = 10, requests = [], lastReset = 0\<rparr>
          (\<lambda>n. if n < 2 then Responded 503 None (Inr JNull)
                else Responded 200 None (Inr (JObj [(''score'', JNum 5)])))
          ''u'' ''POST'' JNull 1 \<lparr>clock = 0, slept = [], fetched = []\<rparr>)) = [1000, 2000] \<and>
   clock (snd (makeRequest
          \<lparr>apiKey = ''k'', baseUrl = ''u'', maxRetries = 3, retryDelay = 1000, timeout = 30000,
             rateLimitQPS = 10, requests = [], lastReset = 0\<rparr>
          (\<lambda>n. if n < 2 then Responded 503 None (Inr JNull)
                else Responded 200 None (Inr (JObj [(''score'', JNum 5)])))
          ''u'' ''POST'' JNull 1 \<lparr>clock = 0, slept = [], fetched = []\<rparr>)) = 3000 \<and>
   length (fetched (snd (makeRequest
          \<lparr>apiKey = ''k'', baseUrl = ''u'', maxRetries = 3, retryDelay = 1000, timeout = 30000,
             rateLimitQPS = 10, requests = [], lastReset = 0\<rparr>
          (\<lambda>n. Responded 503 None (Inr JNull))
          ''u'' ''POST'' JNull 1 \<lparr>clock = 0, slept = [], fetched = []\<rparr>))) = 4 \<and>
   (\<exists>c'. newClient \<lparr>cfg_apiKey = ''k'', cfg_baseUrl = None, cfg_maxRetries = None,
                     cfg_retryDelay = Some 250, cfg_timeout = None, cfg_rateLimitQPS = None\<rparr> 0 =
            Inr c' \<and> maxRetries c' = 3 \<and> retryDelay c' = 250) \<and>
   attemptOutcome
     \<lparr>apiKey = ''k'', baseUrl = ''u'', maxRetries = 3, retryDelay = 1000, timeout = 30000,
        rateLimitQPS = 10, requests = [], lastReset = 0\<rparr> 2 (Failed ''ECONNRESET'') = Retry 2000"
proof -
  let ?c = "\<lparr>apiKey = ''k'', baseUrl = ''u'', maxRetries = 3, retryDelay = 1000, timeout = 30000,
             rateLimitQPS = 10, requests = [], lastReset = 0\<rparr>"
  let ?w = "\<lparr>clock = 0, slept = [], fetched = []\<rparr>"
  let ?net = "\<lambda>n::nat. if n < 2 then Responded 503 None (Inr JNull)
                else Responded 200 None (Inr (JObj [(''score'', JNum 5)]))"
  let ?down = "\<lambda>n::nat. Responded 503 None (Inr JNull)"
  let ?config = "\<lparr>cfg_apiKey = ''k'', cfg_baseUrl = None, cfg_maxRetries = None,
                   cfg_retryDelay = Some 250, cfg_timeout = None, cfg_rateLimitQPS = None\<rparr>"
  have h1: "maxRetries ?c = 3 \<and>
    ?net (length (fetched ?w)) = Responded 503 None (Inr JNull) \<and> (500::int) \<le> 503 \<and>
    ?net (length (fetched ?w) + 1) = Responded 503 None (Inr JNull) \<and> (500::int) \<le> 503 \<and>
    ?net (length (fetched ?w) + 2) = Responded 200 None (Inr (JObj [(''score'', JNum 5)]))"
    by simp
  have h2: "maxRetries ?c = 3 \<and> (\<forall>n. \<exists>s h p. ?down n = Responded s h p \<and> 500 \<le> s)"
    by simp
  have h3: "cfg_apiKey ?config \<noteq> []"
    by simp
  have h4: "2 \<le> maxRetries ?c" by simp
  have h5: "retryDelay ?c * 2 \<le> 2147483647" by simp
  from makeRequest_linear_backoff
         [where config = ?config and now = 0 and c = ?c and net = ?net and url = "''u''"
            and verb = "''POST''" and content = JNull and w = ?w and attempt = 2
            and msg = "''ECONNRESET''" and status = 503 and retryAfter = None
            and payload = "Inr JNull" and ?s1.0 = 503 and ?h1.0 = None and ?p1.0 = "Inr JNull"
            and ?s2.0 = 503 and ?h2.0 = None and ?p2.0 = "Inr JNull" and ?h3.0 = None
            and data = "JObj [(''score'', JNum 5)]"]
       h1 h3 h4 h5
  have a: "fst (makeRequest ?c ?net ''u'' ''POST'' JNull 1 ?w) = Inr (JObj [(''score'', JNum 5)])"
    and b: "slept (snd (makeRequest ?c ?net ''u'' ''POST'' JNull 1 ?w)) = [1000, 2000]"
    and t: "clock (snd (makeRequest ?c ?net ''u'' ''POST'' JNull 1 ?w)) = 3000"
    and c: "\<exists>c'. newClient ?config 0 = Inr c' \<and> maxRetries c' = 3 \<and> retryDelay c' = 250"
    and d: "attemptOutcome ?c 2 (Failed ''ECONNRESET'') = Retry 2000"
    by (simp_all add: timerDelay_def)
  from makeRequest_linear_backoff
         [where c = ?c and net = ?down and url = "''u''" and verb = "''POST''"
            and content = JNull and w = ?w]
       h2
  have e: "length (fetched (snd (makeRequest ?c ?down ''u'' ''POST'' JNull 1 ?w))) = 4"
    by simp
  from a b t c d e show ?thesis by blast
qed

text \<open>
  The claim as worded promises the sum of the two delays as time slept for every base delay.
  With \<^verbatim>\<open>retryDelay\<close> 2147483647 the second delay, 4294967294, is beyond the timer's range
  and lasts 1 ms: the call succeeds after 2147483648 ms, less than the 6442450941 ms of the
  claim.
\<close>

theorem makeRequest_backoff_range_counterexample:
  "fst (makeRequest
          \<lparr>apiKey = ''k'', baseUrl = ''u'', maxRetries = 3, retryDelay = 2147483647,
             timeout = 30000, rateLimitQPS = 10, requests = [], lastReset = 0\<rparr>
          (\<lambda>n. if n < 2 then Responded 503 None (Inr JNull)
                else Responded 200 None (Inr (JObj [(''score'', JNum 5)])))
          ''u'' ''POST'' JNull 1 \<lparr>clock = 0, slept = [], fetched = []\<rparr>) =
     Inr (JObj [(''score'', JNum 5)]) \<and>
   slept (snd (makeRequest
          \<lparr>apiKey = ''k'', baseUrl = ''u'', maxRetries = 3, retryDelay = 2147483647,
             timeout = 30000, rateLimitQPS = 10, requests = [], lastReset = 0\<rparr>
          (\<lambda>n. if n < 2 then Responded 503 None (Inr JNull)
                else Responded 200 None (Inr (JObj [(''score'', JNum 5)])))
          ''u'' ''POST'' JNull 1 \<lparr>clock = 0, slept = [], fetched = []\<rparr>)) =
     [2147483647, 4294967294] \<and>
   clock (snd (makeRequest
          \<lparr>apiKey = ''k'', baseUrl = ''u'', maxRetries = 3, retryDelay = 2147483647,
             timeout = 30000, rateLimitQPS = 10, requests = [], lastReset = 0\<rparr>
          (\<lambda>n. if n < 2 then Responded 503 None (Inr JNull)
                else Responded 200 None (Inr (JObj [(''score'', JNum 5)])))
          ''u'' ''POST'' JNull 1 \<lparr>clock = 0, slept = [], fetched = []\<rparr>)) = 2147483648 \<and>
   (2147483648 :: int) < 2147483647 * 1 + 2147483647 * 2"
proof -
  let ?c = "\<lparr>apiKey = ''k'', baseUrl = ''u'', maxRetries = 3, retryDelay = 2147483647,
             timeout = 30000, rateLimitQPS = 10, requests = [], lastReset = 0\<rparr>"
  let ?w = "\<lparr>clock = 0, slept = [], fetched = []\<rparr>"
  let ?net = "\<lambda>n::nat. if n < 2 then Responded 503 None (Inr JNull)
                else Responded 200 None (Inr (JObj [(''score'', JNum 5)]))"
  have "makeRequest ?c ?net ''u'' ''POST'' JNull 1 ?w =
          (Inr (JObj [(''score'', JNum 5)]),
           ?w\<lparr>clock := clock ?w + timerDelay (retryDelay ?c * 1) + timerDelay (retryDelay ?c * 2),
               slept := slept ?w @ [retryDelay ?c * 1, retryDelay ?c * 2],
               fetched := fetched ?w @ replicate 3 (''u'', ''POST'', JNull)\<rparr>)"
    by (rule makeRequest_recovers [where ?s1.0 = 503 and ?h1.0 = None and ?p1.0 = "Inr JNull"
                                     and ?s2.0 = 503 and ?h2.0 = None and ?p2.0 = "Inr JNull"
                                     and ?h3.0 = None]) simp_all
  then show ?thesis by (simp add: timerDelay_def)
qed

text \<open>
  C8.  When an exchange is aborted by the timeout, \<^verbatim>\<open>makeRequest\<close> throws the timeout error
  (status 408) at once: the aborted exchange is the last one of the call and no sleep
  follows it, whatever the attempt number and however many retries remain.  A call whose
  first exchange times out has therefore made exactly one network attempt; and when a first
  exchange is retried after a status of 500 or more and the second one times out, the call
  ends there, after two exchanges.
\<close>

theorem makeRequest_timeout_not_retried:
  "(net (length (fetched w)) = Aborted \<longrightarrow>
      makeRequest c net url verb content attempt w =
        (Inl (TrustAPIError (JStr ''Request timeout'') JUndefined (JNum 408)),
         w\<lparr>fetched := fetched w @ [(url, verb, content)]\<rparr>)) \<and>
   (maxRetries c = 3 \<and> net (length (fetched w)) = Responded status retryAfter payload \<and>
    500 \<le> status \<and> net (length (fetched w) + 1) = Aborted \<longrightarrow>
      fst (makeRequest c net url verb content 1 w) =
        Inl (TrustAPIError (JStr ''Request timeout'') JUndefined (JNum 408)) \<and>
      fetched (snd (makeRequest c net url verb content 1 w)) =
        fetched w @ replicate 2 (url, verb, content))"
proof (intro conjI impI)
  assume "net (length (fetched w)) = Aborted"
  then show "makeRequest c net url verb content attempt w =
        (Inl (TrustAPIError (JStr ''Request timeout'') JUndefined (JNum 408)),
         w\<lparr>fetched := fetched w @ [(url, verb, content)]\<rparr>)"
    by (simp add: makeRequest_Throw attemptOutcome_def)
next
  assume a: "maxRetries c = 3 \<and> net (length (fetched w)) = Responded status retryAfter payload \<and>
    500 \<le> status \<and> net (length (fetched w) + 1) = Aborted"
  let ?w1 = "sleep (retryDelay c * 1) (w\<lparr>fetched := fetched w @ [(url, verb, content)]\<rparr>)"
  from a have "attemptOutcome c 1 (net (length (fetched w))) = Retry (retryDelay c * 1)"
    by (simp add: attemptOutcome_server_error)
  then have one: "makeRequest c net url verb content 1 w = makeRequest c net url verb content 2 ?w1"
    using makeRequest_Retry [of c 1 net w "retryDelay c * 1" url verb content] by simp
  from a have "attemptOutcome c 2 (net (length (fetched ?w1))) =
               Throw (TrustAPIError (JStr ''Request timeout'') JUndefined (JNum 408))"
    by (simp add: attemptOutcome_def)
  then have two: "makeRequest c net url verb content 2 ?w1 =
                  (Inl (TrustAPIError (JStr ''Request timeout'') JUndefined (JNum 408)),
                   ?w1\<lparr>fetched := fetched ?w1 @ [(url, verb, content)]\<rparr>)"
    by (rule makeRequest_Throw)
  from one two have both: "makeRequest c net url verb content 1 w =
                  (Inl (TrustAPIError (JStr ''Request timeout'') JUndefined (JNum 408)),
                   ?w1\<lparr>fetched := fetched ?w1 @ [(url, verb, content)]\<rparr>)"
    by (rule trans)
  show "fst (makeRequest c net url verb content 1 w) =
        Inl (TrustAPIError (JStr ''Request timeout'') JUndefined (JNum 408))"
    by (simp add: both)
  show "fetched (snd (makeRequest c net url verb content 1 w)) =
        fetched w @ replicate 2 (url, verb, content)"
    by (simp add: both numeral_2_eq_2)
qed

theorem makeRequest_timeout_not_retried_witness:
  "makeRequest
     \<lparr>apiKey = ''k'', baseUrl = ''u'', maxRetries = 3, retryDelay = 1000, timeout = 30000,
        rateLimitQPS = 10, requests = [], lastReset = 0\<rparr>
     (\<lambda>n. Aborted) ''u'' ''POST'' JNull 1 \<lparr>clock = 0, slept = [], fetched = []\<rparr> =
   (Inl (TrustAPIError (JStr ''Request timeout'') JUndefined (JNum 408)),
    \<lparr>clock = 0, slept = [], fetched = [(''u'', ''POST'', JNull)]\<rparr>) \<and>
   fetched (snd (makeRequest
     \<lparr>apiKey = ''k'', baseUrl = ''u'', maxRetries = 3, retryDelay = 1000, timeout = 30000,
        rateLimitQPS = 10, requests = [], lastReset = 0\<rparr>
     (\<lambda>n. if n = 0 then Responded 503 None (Inr JNull) else Aborted)
     ''u'' ''POST'' JNull 1 \<lparr>clock = 0, slept = [], fetched = []\<rparr>)) =
   [(''u'', ''POST'', JNull), (''u'', ''POST'', JNull)]"
proof -
  let ?c = "\<lparr>apiKey = ''k'', baseUrl = ''u'', maxRetries = 3, retryDelay = 1000, timeout = 30000,
             rateLimitQPS = 10, requests = [], lastReset = 0\<rparr>"
  let ?w = "\<lparr>clock = 0, slept = [], fetched = []\<rparr>"
  let ?net = "\<lambda>n::nat. if n = 0 then Responded 503 None (Inr JNull) else Aborted"
  have h: "maxRetries ?c = 3 \<and> ?net (length (fetched ?w)) = Responded 503 None (Inr JNull) \<and>
           (500::int) \<le> 503 \<and> ?net (length (fetched ?w) + 1) = Aborted"
    by simp
  from makeRequest_timeout_not_retried
         [where net = "\<lambda>n. Aborted" and w = ?w and c = ?c and url = "''u''"
            and verb = "''POST''" and content = JNull and attempt = 1]
  have a: "makeRequest ?c (\<lambda>n. Aborted) ''u'' ''POST'' JNull 1 ?w =
           (Inl (TrustAPIError (JStr ''Request timeout'') JUndefined (JNum 408)),
            \<lparr>clock = 0, slept = [], fetched = [(''u'', ''POST'', JNull)]\<rparr>)"
    by simp
  from makeRequest_timeout_not_retried
         [where net = ?net and w = ?w and c = ?c and url = "''u''" and verb = "''POST''"
            and content = JNull and status = 503 and retryAfter = None
            and payload = "Inr JNull"] h
  have b: "fetched (snd (makeRequest ?c ?net ''u'' ''POST'' JNull 1 ?w)) =
           [(''u'', ''POST'', JNull), (''u'', ''POST'', JNull)]"
    by (simp add: numeral_2_eq_2)
  from a b show ?thesis by blast
qed

section \<open>Properties of the facade\<close>

lemma jsGreater_JNum: "jsGreater (JNum n) m = (m < n)"
  by (simp add: jsGreater_def numberGreater_def)

lemma feedbacks_of_request:
  "get (JObj (feedbackFullRequest c request)) ''feedbacks'' =
     (if truthy (get (JObj request) ''feedbacks'') then get (JObj request) ''feedbacks''
      else JArr [])"
  by (simp add: feedbackFullRequest_def)

declare get.simps [simp del]

lemma sendFeedback_accepted:
  assumes "jsLength (get (JObj (feedbackFullRequest c request)) ''feedbacks'') \<noteq> JNum 0"
    and "\<not> jsGreater (jsLength (get (JObj (feedbackFullRequest c request)) ''feedbacks'')) 1000"
  shows "sendFeedback c net request w =
     (let c' = fst (applyRateLimit c w);
          sent = makeRequest c' net (baseUrl c) ''PUT'' (JObj (feedbackFullRequest c request)) 1
                   (snd (applyRateLimit c w))
      in (case fst sent of Inl e \<Rightarrow> Inl e | Inr response \<Rightarrow> checkResponse response, c', snd sent))"
  using assms
  by (simp add: sendFeedback_def Let_def case_prod_unfold applyRateLimit_config
      split: sum.splits)


text \<open>
  C9.  \<^verbatim>\<open>sendFeedback\<close> requires between 1 and 1000 items before anything else happens.
  With no items (an empty or absent \<^verbatim>\<open>feedbacks\<close>) it throws the error
  \<^verbatim>\<open>At least one feedback item is required\<close>; with more than 1000 items it throws the
  too-many-feedbacks error.  In both cases the client and the world are returned unchanged:
  no network exchange, and the rate limiter's window untouched.  With 1 to 1000 items, 1000
  included, the request passes the local checks: the limiter records the admission and the
  full request is sent with \<^verbatim>\<open>PUT\<close> at least once.  The error for no items is constructed
  without a code, so its \<^verbatim>\<open>code\<close> is \<^verbatim>\<open>undefined\<close> and not \<^verbatim>\<open>MISSING_REQUIRED_FIELD\<close>.  The
  other local errors of the client are coded: the one for too many items carries 1023, and
  the error of \<^verbatim>\<open>scoreTransaction\<close> for a request without any data field carries 2023, which
  is \<^verbatim>\<open>MISSING_REQUIRED_FIELD\<close>.
\<close>

theorem sendFeedback_bounds:
  "(\<not> truthy (get (JObj request) ''feedbacks'') \<or> get (JObj request) ''feedbacks'' = JArr [] \<longrightarrow>
      sendFeedback c net request w =
        (Inl (TrustAPIError (JStr ''At least one feedback item is required'')
                JUndefined JUndefined), c, w) \<and>
      (\<exists>e. fst (sendFeedback c net request w) = Inl e \<and> errorCode e = JUndefined \<and>
           errorCode e \<noteq> JNum MISSING_REQUIRED_FIELD)) \<and>
   (get (JObj request) ''feedbacks'' = JArr items \<and> length items > 1000 \<longrightarrow>
      sendFeedback c net request w =
        (Inl (TrustAPIError (JStr ''Maximum 1000 feedback items allowed per request'')
                (JNum 1023) JUndefined), c, w) \<and>
      (\<exists>e. fst (sendFeedback c net request w) = Inl e \<and> errorCode e = JNum 1023)) \<and>
   (get (JObj request) ''feedbacks'' = JArr items \<and> 1 \<le> length items \<and> length items \<le> 1000 \<longrightarrow>
      requests (fst (snd (sendFeedback c net request w))) =
        filter (\<lambda>timestamp. timestamp > clock w - 1000) (requests c) @ [clock w] \<and>
      (\<exists>k. fetched (snd (snd (sendFeedback c net request w))) =
             fetched w @ replicate (Suc k)
               (baseUrl c, ''PUT'', JObj (feedbackFullRequest c request)))) \<and>
   (truthy (optGet (get scored ''action'') ''type'') \<and>
    \<not> list_ex (\<lambda>field. get scored field \<noteq> JUndefined) clientDataFields \<longrightarrow>
      (\<exists>e. validateRequest scored = Some e \<and> errorCode e = JNum MISSING_REQUIRED_FIELD))"
proof (intro conjI impI)
  assume "\<not> truthy (get (JObj request) ''feedbacks'') \<or> get (JObj request) ''feedbacks'' = JArr []"
  then have "get (JObj (feedbackFullRequest c request)) ''feedbacks'' = JArr []"
    by (auto simp: feedbacks_of_request)
  then show none: "sendFeedback c net request w =
        (Inl (TrustAPIError (JStr ''At least one feedback item is required'')
                JUndefined JUndefined), c, w)"
    by (simp add: sendFeedback_def Let_def)
  show "\<exists>e. fst (sendFeedback c net request w) = Inl e \<and> errorCode e = JUndefined \<and>
           errorCode e \<noteq> JNum MISSING_REQUIRED_FIELD"
    by (simp add: none)
next
  assume "get (JObj request) ''feedbacks'' = JArr items \<and> length items > 1000"
  then have "get (JObj (feedbackFullRequest c request)) ''feedbacks'' = JArr items"
    and "length items > 1000"
    by (auto simp: feedbacks_of_request)
  then show many: "sendFeedback c net request w =
        (Inl (TrustAPIError (JStr ''Maximum 1000 feedback items allowed per request'')
                (JNum 1023) JUndefined), c, w)"
    by (auto simp: sendFeedback_def jsGreater_JNum Let_def)
  show "\<exists>e. fst (sendFeedback c net request w) = Inl e \<and> errorCode e = JNum 1023"
    by (simp add: many)
next
  assume a: "get (JObj request) ''feedbacks'' = JArr items \<and> 1 \<le> length items \<and>
             length items \<le> 1000"
  then have f: "get (JObj (feedbackFullRequest c request)) ''feedbacks'' = JArr items"
    by (auto simp: feedbacks_of_request)
  from a f have unfold: "sendFeedback c net request w =
     (let c' = fst (applyRateLimit c w);
          sent = makeRequest c' net (baseUrl c) ''PUT'' (JObj (feedbackFullRequest c request)) 1
                   (snd (applyRateLimit c w))
      in (case fst sent of Inl e \<Rightarrow> Inl e | Inr response \<Rightarrow> checkResponse response, c', snd sent))"
    by (intro sendFeedback_accepted) (auto simp: jsGreater_JNum)
  show "requests (fst (snd (sendFeedback c net request w))) =
        filter (\<lambda>timestamp. timestamp > clock w - 1000) (requests c) @ [clock w]"
    by (simp add: unfold Let_def applyRateLimit_requests)
  show "\<exists>k. fetched (snd (snd (sendFeedback c net request w))) =
             fetched w @ replicate (Suc k)
               (baseUrl c, ''PUT'', JObj (feedbackFullRequest c request))"
    using makeRequest_fetched
            [of "fst (applyRateLimit c w)" net "baseUrl c" "''PUT''"
                "JObj (feedbackFullRequest c request)" 1 "snd (applyRateLimit c w)"]
    by (simp add: unfold Let_def applyRateLimit_fetched)
next
  assume "truthy (optGet (get scored ''action'') ''type'') \<and>
    \<not> list_ex (\<lambda>field. get scored field \<noteq> JUndefined) clientDataFields"
  then show "\<exists>e. validateRequest scored = Some e \<and> errorCode e = JNum MISSING_REQUIRED_FIELD"
    by (simp add: validateRequest_def MISSING_REQUIRED_FIELD_def)
qed

theorem sendFeedback_bounds_witness:
  "sendFeedback
     \<lparr>apiKey = ''k'', baseUrl = ''u'', maxRetries = 3, retryDelay = 1000, timeout = 30000,
        rateLimitQPS = 10, requests = [], lastReset = 0\<rparr>
     (\<lambda>n. Aborted) [(''feedbacks'', JArr [])] \<lparr>clock = 0, slept = [], fetched = []\<rparr> =
     (Inl (TrustAPIError (JStr ''At least one feedback item is required'') JUndefined JUndefined),
      \<lparr>apiKey = ''k'', baseUrl = ''u'', maxRetries = 3, retryDelay = 1000, timeout = 30000,
         rateLimitQPS = 10, requests = [], lastReset = 0\<rparr>,
      \<lparr>clock = 0, slept = [], fetched = []\<rparr>) \<and>
   sendFeedback
     \<lparr>apiKey = ''k'', baseUrl = ''u'', maxRetries = 3, retryDelay = 1000, timeout = 30000,
        rateLimitQPS = 10, requests = [], lastReset = 0\<rparr>
     (\<lambda>n. Aborted) [(''feedbacks'', JArr (replicate 1001 JNull))]
     \<lparr>clock = 0, slept = [], fetched = []\<rparr> =
     (Inl (TrustAPIError (JStr ''Maximum 1000 feedback items allowed per request'')
             (JNum 1023) JUndefined),
      \<lparr>apiKey = ''k'', baseUrl = ''u'', maxRetries = 3, retryDelay = 1000, timeout = 30000,
         rateLimitQPS = 10, requests = [], lastReset = 0\<rparr>,
      \<lparr>clock = 0, slept = [], fetched = []\<rparr>) \<and>
   requests (fst (snd (sendFeedback
     \<lparr>apiKey = ''k'', baseUrl = ''u'', maxRetries = 3, retryDelay = 1000, timeout = 30000,
        rateLimitQPS = 10, requests = [], lastReset = 0\<rparr>
     (\<lambda>n. Aborted) [(''feedbacks'', JArr (replicate 1000 JNull))]
     \<lparr>clock = 0, slept = [], fetched = []\<rparr>))) = [0] \<and>
   validateRequest (JObj [(''action'', JObj [(''type'', JStr ''purchase'')])]) =
     Some (TrustAPIError
             (JStr ''At least one data field is required (name, email, phone, address, sender, recipient, etc.)'')
             (JNum 2023) JUndefined)"
proof -
  let ?c = "\<lparr>apiKey = ''k'', baseUrl = ''u'', maxRetries = 3, retryDelay = 1000, timeout = 30000,
             rateLimitQPS = 10, requests = [], lastReset = 0\<rparr>"
  let ?w = "\<lparr>clock = 0, slept = [], fetched = []\<rparr>"
  let ?net = "\<lambda>n::nat. Aborted"
  let ?s = "JObj [(''action'', JObj [(''type'', JStr ''purchase'')])]"
  have h0: "\<not> truthy (get (JObj [(''feedbacks'', JArr [])]) ''feedbacks'') \<or>
            get (JObj [(''feedbacks'', JArr [])]) ''feedbacks'' = JArr []"
    by (simp add: get.simps)
  have h1: "get (JObj [(''feedbacks'', JArr (replicate 1001 JNull))]) ''feedbacks'' =
              JArr (replicate 1001 JNull) \<and> length (replicate 1001 JNull) > 1000"
    by (simp add: get.simps)
  have h2: "get (JObj [(''feedbacks'', JArr (replicate 1000 JNull))]) ''feedbacks'' =
              JArr (replicate 1000 JNull) \<and> 1 \<le> length (replicate 1000 JNull) \<and>
            length (replicate 1000 JNull) \<le> 1000"
    by (simp add: get.simps)
  have h3: "truthy (optGet (get ?s ''action'') ''type'') \<and>
            \<not> list_ex (\<lambda>field. get ?s field \<noteq> JUndefined) clientDataFields"
    by (simp add: get.simps optGet_def clientDataFields_def)
  from sendFeedback_bounds [where request = "[(''feedbacks'', JArr [])]" and c = ?c
                              and net = ?net and w = ?w] h0
  have a: "sendFeedback ?c ?net [(''feedbacks'', JArr [])] ?w =
     (Inl (TrustAPIError (JStr ''At least one feedback item is required'') JUndefined JUndefined),
      ?c, ?w)"
    by blast
  from sendFeedback_bounds [where request = "[(''feedbacks'', JArr (replicate 1001 JNull))]"
                              and items = "replicate 1001 JNull" and c = ?c and net = ?net
                              and w = ?w] h1
  have b: "sendFeedback ?c ?net [(''feedbacks'', JArr (replicate 1001 JNull))] ?w =
     (Inl (TrustAPIError (JStr ''Maximum 1000 feedback items allowed per request'')
             (JNum 1023) JUndefined), ?c, ?w)"
    by blast
  from sendFeedback_bounds [where request = "[(''feedbacks'', JArr (replicate 1000 JNull))]"
                              and items = "replicate 1000 JNull" and c = ?c and net = ?net
                              and w = ?w] h2
  have c: "requests (fst (snd (sendFeedback ?c ?net
             [(''feedbacks'', JArr (replicate 1000 JNull))] ?w))) = [0]"
    by simp
  from sendFeedback_bounds [where scored = ?s] h3
  obtain e where "validateRequest ?s = Some e" "errorCode e = JNum MISSING_REQUIRED_FIELD"
    by blast
  moreover have "validateRequest ?s =
     Some (TrustAPIError
             (JStr ''At least one data field is required (name, email, phone, address, sender, recipient, etc.)'')
             (JNum 2023) JUndefined)"
    by (simp add: validateRequest_def get.simps optGet_def clientDataFields_def)
  ultimately have d: "validateRequest ?s =
     Some (TrustAPIError
             (JStr ''At least one data field is required (name, email, phone, address, sender, recipient, etc.)'')
             (JNum 2023) JUndefined)"
    by simp
  from a b c d show ?thesis by blast
qed

section \<open>The credential of outbound payloads\<close>














section \<open>Properties of the validator\<close>

lemma andThen_simps [simp]:
  "andThen (Inl e) step = Inl e"
  "andThen (Inr fs) step = step fs"
  by (simp_all add: andThen_def)

lemma appendsI:
  "(\<And>fs. step fs = (case step ([], []) of
                       Inl e \<Rightarrow> Inl e
                     | Inr d \<Rightarrow> Inr (fst fs @ fst d, snd fs @ snd d))) \<Longrightarrow> appends step"
  unfolding appends_def by blast

lemma appendsD:
  "appends step \<Longrightarrow> step fs = (case step ([], []) of
                       Inl e \<Rightarrow> Inl e
                     | Inr d \<Rightarrow> Inr (fst fs @ fst d, snd fs @ snd d))"
  unfolding appends_def by blast

lemmas push_defs = pushErrorIf_def pushWarningIf_def pushError_def pushWarning_def

lemma appends_pure:
  "appends (\<lambda>fs. Inr (pushErrorIf b f m c fs))"
  "appends (\<lambda>fs. Inr (pushWarningIf b f m c' fs))"
  "appends (\<lambda>fs. Inr (pushError f m c fs))"
  "appends (\<lambda>fs. Inr (pushWarning f m c' fs))"
  "appends Inr"
  by (rule appendsI, simp add: push_defs)+

lemma appends_whenPresent: "appends (check v) \<Longrightarrow> appends (whenPresent v check)"
proof (rule appendsI)
  fix fs
  assume a: "appends (check v)"
  show "whenPresent v check fs =
        (case whenPresent v check ([], []) of
           Inl e \<Rightarrow> Inl e | Inr d \<Rightarrow> Inr (fst fs @ fst d, snd fs @ snd d))"
  proof (cases "truthy v")
    case True
    with appendsD [OF a, of fs] show ?thesis by (simp add: whenPresent_def)
  next
    case False
    then show ?thesis by (simp add: whenPresent_def)
  qed
qed

lemma appends_andThen:
  assumes "appends s" "appends t"
  shows "appends (\<lambda>fs. andThen (s fs) t)"
proof (rule appendsI)
  fix fs
  show "andThen (s fs) t =
        (case andThen (s ([], [])) t of
           Inl e \<Rightarrow> Inl e | Inr d \<Rightarrow> Inr (fst fs @ fst d, snd fs @ snd d))"
  proof (cases "s ([], [])")
    case (Inl e)
    with appendsD [OF assms(1), of fs] show ?thesis by simp
  next
    case (Inr d)
    with appendsD [OF assms(1), of fs] have s: "s fs = Inr (fst fs @ fst d, snd fs @ snd d)"
      by simp
    show ?thesis
    proof (cases "t ([], [])")
      case (Inl e)
      with appendsD [OF assms(2), of "(fst fs @ fst d, snd fs @ snd d)"]
        appendsD [OF assms(2), of d] Inr s
      show ?thesis by simp
    next
      case r: (Inr d')
      with appendsD [OF assms(2), of "(fst fs @ fst d, snd fs @ snd d)"]
        appendsD [OF assms(2), of d] Inr s
      show ?thesis by simp
    qed
  qed
qed

lemma foldl_andThen_Inl [simp]: "foldl andThen (Inl e) steps = Inl e"
  by (induction steps) simp_all

lemma appends_steps:
  "list_all appends steps \<Longrightarrow> appends (\<lambda>fs. foldl andThen (Inr fs) steps)"
proof (induction steps rule: rev_induct)
  case Nil
  then show ?case by (simp add: appends_pure)
next
  case (snoc t steps)
  then have "appends (\<lambda>fs. foldl andThen (Inr fs) steps)" and "appends t" by simp_all
  then have "appends (\<lambda>fs. andThen (foldl andThen (Inr fs) steps) t)"
    by (rule appends_andThen)
  then show ?case by simp
qed

lemma alone_steps:
  "list_all appends steps \<Longrightarrow> foldl andThen (Inr fs) steps = Inr fs' \<Longrightarrow>
     fst fs' = fst fs @ concat (map (\<lambda>s. fst (alone s)) steps) \<and>
     snd fs' = snd fs @ concat (map (\<lambda>s. snd (alone s)) steps)"
proof (induction steps arbitrary: fs fs' rule: rev_induct)
  case Nil
  then show ?case by simp
next
  case (snoc t steps)
  from snoc.prems(2) have run: "andThen (foldl andThen (Inr fs) steps) t = Inr fs'"
    by simp
  then obtain mid where mid: "foldl andThen (Inr fs) steps = Inr mid"
    by (cases "foldl andThen (Inr fs) steps") simp_all
  with run have t: "t mid = Inr fs'" by simp
  from snoc.prems(1) have all: "list_all appends steps" and at: "appends t" by simp_all
  from snoc.IH [OF all mid] have
    m: "fst mid = fst fs @ concat (map (\<lambda>s. fst (alone s)) steps)"
       "snd mid = snd fs @ concat (map (\<lambda>s. snd (alone s)) steps)"
    by simp_all
  from appendsD [OF at, of mid] t have
    "fst fs' = fst mid @ fst (alone t)" "snd fs' = snd mid @ snd (alone t)"
    by (auto simp: alone_def split: sum.splits)
  with m show ?case by simp
qed

lemma fst_snd_push [simp]:
  "fst (pushErrorIf b f m c fs) = fst fs @ (if b then [\<lparr>field = f, message = m, code = Some c\<rparr>] else [])"
  "snd (pushErrorIf b f m c fs) = snd fs"
  "fst (pushWarningIf b f m c' fs) = fst fs"
  "snd (pushWarningIf b f m c' fs) = snd fs @ (if b then [\<lparr>field = f, message = m, code = c'\<rparr>] else [])"
  "fst (pushError f m c fs) = fst fs @ [\<lparr>field = f, message = m, code = Some c\<rparr>]"
  "snd (pushError f m c fs) = snd fs"
  "fst (pushWarning f m c' fs) = fst fs"
  "snd (pushWarning f m c' fs) = snd fs @ [\<lparr>field = f, message = m, code = c'\<rparr>]"
  by (simp_all add: push_defs)

lemma appends_validateName: "appends (validateName name path)"
  by (rule appendsI) (simp add: validateName_def Let_def prod_eq_iff split: jv.splits)

lemma appends_validateEmail: "appends (validateEmail email path)"
  by (rule appendsI) (simp add: validateEmail_def Let_def prod_eq_iff split: jv.splits)

lemma appends_validatePhone: "appends (validatePhone phone path)"
  by (rule appendsI) (simp add: validatePhone_def Let_def prod_eq_iff split: jv.splits)

lemma appends_validateAddress: "appends (validateAddress address path)"
  by (rule appendsI) (simp add: validateAddress_def Let_def prod_eq_iff)

lemma appends_validatePerson: "appends (validatePerson person path)"
  by (rule appendsI) (simp add: validatePerson_def Let_def prod_eq_iff)

lemma appends_warnUnlessIP: "appends (warnUnlessIP ip f)"
  by (rule appendsI) (simp add: warnUnlessIP_def prod_eq_iff split: sum.splits)

lemma appends_errorUnlessIP: "appends (errorUnlessIP ip f m)"
  by (rule appendsI) (simp add: errorUnlessIP_def prod_eq_iff split: sum.splits)

lemma appends_validateDevice: "appends (validateDevice device path)"
  unfolding validateDevice_def
  by (intro appends_steps)
     (simp add: appends_whenPresent appends_errorUnlessIP appends_pure)

lemma appends_cpf:
  "appends (\<lambda>fs. if b then (case isValidCPF v of
                              Inl e \<Rightarrow> Inl e
                            | Inr ok \<Rightarrow> Inr (pushWarningIf (\<not> ok) f m None fs))
                  else Inr fs)"
  by (rule appendsI) (simp add: prod_eq_iff split: sum.splits)

lemma appends_validatePersonalIdentifier: "appends (validatePersonalIdentifier identifier path)"
proof -
  let ?steps = "[(\<lambda>fs. if get identifier ''type'' = JStr ''CPF'' \<and> truthy (get identifier ''value'')
                   then (case isValidCPF (get identifier ''value'') of
                           Inl e \<Rightarrow> Inl e
                         | Inr ok \<Rightarrow> Inr (pushWarningIf (\<not> ok) (path @ ''.value'')
                                            ''CPF format appears invalid'' None fs))
                   else Inr fs),
            (\<lambda>fs. Inr (pushWarningIf
                         (truthy (get identifier ''issue_date'') \<and>
                          \<not> matches dateRegex (jsToString (get identifier ''issue_date'')))
                         (path @ ''.issue_date'') ''Issue date should be in YYYY-MM-DD format''
                         None fs)),
            (\<lambda>fs. Inr (pushWarningIf
                         (truthy (get identifier ''expiry_date'') \<and>
                          \<not> matches dateRegex (jsToString (get identifier ''expiry_date'')))
                         (path @ ''.expiry_date'') ''Expiry date should be in YYYY-MM-DD format''
                         None fs))]"
  let ?pre = "\<lambda>fs. Inr (pushErrorIf (\<not> truthy (get identifier ''value''))
                 (path @ ''.value'') ''Identifier value is required'' MISSING_REQUIRED_FIELD
                 (pushErrorIf (\<not> truthy (get identifier ''type''))
                 (path @ ''.type'') ''Identifier type is required'' MISSING_REQUIRED_FIELD fs))"
  have pre: "appends ?pre"
    by (rule appendsI) (simp add: prod_eq_iff)
  have "list_all appends ?steps"
    by (simp add: appends_cpf appends_pure)
  then have "appends (\<lambda>fs. foldl andThen (Inr fs) ?steps)"
    by (rule appends_steps)
  with pre have "appends (\<lambda>fs. andThen (?pre fs) (\<lambda>fs. foldl andThen (Inr fs) ?steps))"
    by (rule appends_andThen)
  moreover have "validatePersonalIdentifier identifier path =
                 (\<lambda>fs. andThen (?pre fs) (\<lambda>fs. foldl andThen (Inr fs) ?steps))"
    by (rule ext) (simp add: validatePersonalIdentifier_def Let_def)
  ultimately show ?thesis by simp
qed

lemma appends_validateIpHistory: "appends (validateIpHistory history)"
proof (cases history)
  case (JArr ips)
  have "list_all appends (map (\<lambda>index. warnUnlessIP (ips ! index)
                            (''account.ip_history['' @ show_nat index @ '']''))
               [0..<length ips])"
    by (simp add: list_all_iff appends_warnUnlessIP)
  then have "appends (\<lambda>fs. foldl andThen (Inr fs)
               (map (\<lambda>index. warnUnlessIP (ips ! index)
                            (''account.ip_history['' @ show_nat index @ '']''))
               [0..<length ips]))"
    by (rule appends_steps)
  moreover have "validateIpHistory history = (\<lambda>fs. foldl andThen (Inr fs)
               (map (\<lambda>index. warnUnlessIP (ips ! index)
                            (''account.ip_history['' @ show_nat index @ '']''))
               [0..<length ips]))"
    using JArr by (intro ext) (simp add: validateIpHistory_def)
  ultimately show ?thesis by simp
qed (rule appendsI, simp add: validateIpHistory_def)+

lemma appends_validateAccountGroup: "appends (validateAccountGroup account)"
  unfolding validateAccountGroup_def
  by (intro appends_steps)
     (simp add: appends_whenPresent appends_validateName appends_validateEmail
        appends_validatePhone appends_validateAddress appends_validatePerson
        appends_validatePersonalIdentifier appends_warnUnlessIP appends_validateIpHistory
        appends_pure)

lemma appends_validateBillingShippingGroup:
  "appends (validateBillingShippingGroup grp groupName)"
  unfolding validateBillingShippingGroup_def
  by (intro appends_steps)
     (simp add: appends_whenPresent appends_validateName appends_validateEmail
        appends_validatePhone appends_validateAddress)

lemma appends_action:
  "appends (\<lambda>fs. Inr (if b then pushError f m c fs else pushErrorIf b' f' m' c' fs))"
  by (rule appendsI) (simp add: prod_eq_iff)

lemma appends_validationSteps: "list_all appends (validationSteps request)"
  unfolding validationSteps_def
  by (simp add: appends_whenPresent appends_validateName appends_validateEmail
        appends_validatePhone appends_validateAddress appends_validatePerson
        appends_validatePersonalIdentifier appends_validateDevice
        appends_validateAccountGroup appends_validateBillingShippingGroup
        appends_pure appends_action)

lemma alone_whenPresent:
  "alone (whenPresent v check) = (if truthy v then alone (check v) else ([], []))"
  by (simp add: alone_def whenPresent_def)



lemma hasCode_simps [simp]:
  "hasCode \<lparr>field = f, message = m, code = Some FIELD_VALIDATION_ERROR\<rparr>"
  "hasCode \<lparr>field = f, message = m, code = Some PARTIAL_ADDRESS\<rparr>"
  "hasCode \<lparr>field = f, message = m, code = Some RAW_WITH_OTHER_FIELDS\<rparr>"
  "hasCode \<lparr>field = f, message = m, code = Some MISSING_REQUIRED_FIELD\<rparr>"
  "hasCode \<lparr>field = f, message = m, code = Some ACTION_REQUIRED\<rparr>"
  "hasCode \<lparr>field = f, message = m, code = Some INVALID_ACTION\<rparr>"
  by (simp_all add: hasCode_def)


















subsection \<open>Case folding and the test addresses\<close>

lemma of_char_lower_char:
  "(of_char (lower_char c) :: nat) =
     (if (65 \<le> (of_char c :: nat) \<and> (of_char c :: nat) \<le> 90) \<or>
         (192 \<le> (of_char c :: nat) \<and> (of_char c :: nat) \<le> 222 \<and> (of_char c :: nat) \<noteq> 215)
      then of_char c + 32 else of_char c)"
  by (auto simp: lower_char_def Let_def)

lemma char_eq_of_char: "(c = d) = ((of_char c :: nat) = of_char d)"
  by auto

lemma lower_char_at [simp]: "(lower_char c = CHR ''@'') = (c = CHR ''@'')"
  by (simp add: char_eq_of_char [of _ "CHR ''@''"] of_char_lower_char)

lemma lower_char_dot [simp]: "(lower_char c = CHR ''.'') = (c = CHR ''.'')"
  by (simp add: char_eq_of_char [of _ "CHR ''.''"] of_char_lower_char)

lemma isLetter_lower_char [simp]: "isLetter (lower_char c) = isLetter c"
  by (auto simp: isLetter_def Let_def of_char_lower_char)

lemma isDigit_lower_char [simp]: "isDigit (lower_char c) = isDigit c"
  by (auto simp: isDigit_def of_char_lower_char)

lemma in_set_of_char: "(c \<in> set cs) = ((of_char c :: nat) \<in> of_char ` set cs)"
  by (induction cs) auto

lemma emailLocalChar_lower_char [simp]: "emailLocalChar (lower_char c) = emailLocalChar c"
proof -
  have "(lower_char c \<in> set (CHR 0x27 # ''.!_%-+'')) = (c \<in> set (CHR 0x27 # ''.!_%-+''))"
    unfolding in_set_of_char [of _ "CHR 0x27 # ''.!_%-+''"]
    by (auto simp: of_char_lower_char)
  then show ?thesis by (simp add: emailLocalChar_def)
qed

lemma emailDomainChar_lower_char [simp]: "emailDomainChar (lower_char c) = emailDomainChar c"
proof -
  have "(lower_char c \<in> set ''._%-'') = (c \<in> set ''._%-'')"
    unfolding in_set_of_char [of _ "''._%-''"]
    by (auto simp: of_char_lower_char)
  then show ?thesis by (simp add: emailDomainChar_def)
qed

lemma takeWhile_lower:
  "(\<And>c. (lower_char c = x) = (c = x)) \<Longrightarrow>
     takeWhile (\<lambda>c. c \<noteq> x) (map lower_char s) = map lower_char (takeWhile (\<lambda>c. c \<noteq> x) s)"
  by (induction s) simp_all

lemma list_all_lower:
  "(\<And>c. P (lower_char c) = P c) \<Longrightarrow> list_all P (map lower_char s) = list_all P s"
  by (induction s) simp_all

lemma emailRegex_test_toLowerCase: "emailRegex_test (toLowerCase s) = emailRegex_test s"
proof -
  define localPart where "localPart = takeWhile (\<lambda>c. c \<noteq> CHR ''@'') s"
  define rest where "rest = drop (length localPart + 1) s"
  define tld where "tld = rev (takeWhile (\<lambda>c. c \<noteq> CHR ''.'') (rev rest))"
  define domainPart where "domainPart = take (length rest - length tld - 1) rest"
  have l: "takeWhile (\<lambda>c. c \<noteq> CHR ''@'') (map lower_char s) = map lower_char localPart"
    unfolding localPart_def by (rule takeWhile_lower) simp
  have r: "drop (length (map lower_char localPart) + 1) (map lower_char s) = map lower_char rest"
    by (simp add: rest_def drop_map)
  have "takeWhile (\<lambda>c. c \<noteq> CHR ''.'') (map lower_char (rev rest)) =
        map lower_char (takeWhile (\<lambda>c. c \<noteq> CHR ''.'') (rev rest))"
    by (rule takeWhile_lower) simp
  then have t: "rev (takeWhile (\<lambda>c. c \<noteq> CHR ''.'') (rev (map lower_char rest))) =
                map lower_char tld"
    by (simp add: tld_def rev_map)
  have d: "take (length (map lower_char rest) - length (map lower_char tld) - 1)
             (map lower_char rest) = map lower_char domainPart"
    by (simp add: domainPart_def take_map)
  have lhs: "emailRegex_test (map lower_char s) =
     (map lower_char localPart \<noteq> [] \<and> list_all emailLocalChar (map lower_char localPart) \<and>
      length (map lower_char localPart) < length (map lower_char s) \<and>
      length (map lower_char tld) < length (map lower_char rest) \<and>
      map lower_char domainPart \<noteq> [] \<and> list_all emailDomainChar (map lower_char domainPart) \<and>
      2 \<le> length (map lower_char tld) \<and> length (map lower_char tld) \<le> 24 \<and>
      list_all isLetter (map lower_char tld))"
    unfolding emailRegex_test_def Let_def l r t d by (rule refl)
  have rhs: "emailRegex_test s =
     (localPart \<noteq> [] \<and> list_all emailLocalChar localPart \<and>
      length localPart < length s \<and> length tld < length rest \<and>
      domainPart \<noteq> [] \<and> list_all emailDomainChar domainPart \<and>
      2 \<le> length tld \<and> length tld \<le> 24 \<and> list_all isLetter tld)"
    unfolding emailRegex_test_def Let_def localPart_def [symmetric] rest_def [symmetric]
      tld_def [symmetric] domainPart_def [symmetric] by (rule refl)
  have "list_all emailLocalChar (map lower_char localPart) = list_all emailLocalChar localPart"
    and "list_all emailDomainChar (map lower_char domainPart) = list_all emailDomainChar domainPart"
    and "list_all isLetter (map lower_char tld) = list_all isLetter tld"
    by (rule list_all_lower, simp)+
  then show ?thesis
    unfolding toLowerCase_def lhs rhs by simp
qed

lemma testEmails_valid: "toLowerCase s \<in> set testEmails \<Longrightarrow> emailRegex_test s"
proof -
  assume "toLowerCase s \<in> set testEmails"
  moreover have "list_all emailRegex_test testEmails"
    by code_simp
  ultimately have "emailRegex_test (toLowerCase s)"
    by (simp add: list_all_iff)
  then show ?thesis by (simp add: emailRegex_test_toLowerCase)
qed

subsection \<open>Fields and their prefixes\<close>

lemma startsWith_iff: "startsWith s p = (\<exists>r. s = p @ r)"
proof
  assume "startsWith s p"
  then have "s = p @ drop (length p) s"
    using append_take_drop_id [of "length p" s] by (simp add: startsWith_def)
  then show "\<exists>r. s = p @ r" ..
next
  assume "\<exists>r. s = p @ r"
  then show "startsWith s p" by (auto simp: startsWith_def)
qed

lemma startsWith_refl [simp]: "startsWith p p"
  by (simp add: startsWith_def)

lemma startsWith_append [simp]: "startsWith (p @ a) p"
  by (simp add: startsWith_def)

lemma startsWith_same_append [simp]: "startsWith (p @ a) (p @ b) = startsWith a b"
  by (simp add: startsWith_def)

lemma startsWith_self_append [simp]: "startsWith p (p @ b) = (b = [])"
  using startsWith_same_append [of p "[]" b] by (simp add: startsWith_def del: startsWith_same_append)

lemma startsWith_trans: "startsWith a b \<Longrightarrow> startsWith b c \<Longrightarrow> startsWith a c"
  by (auto simp: startsWith_iff)

lemma startsWith_comparable:
  "startsWith f p \<Longrightarrow> startsWith f q \<Longrightarrow> startsWith p q \<or> startsWith q p"
  by (auto simp: startsWith_iff append_eq_append_conv2)

lemma paired_startsWith: "paired e wa \<Longrightarrow> startsWith (field wa) (field e)"
  by (auto simp: paired_def startsWith_iff)

lemma tieBreak_no_errors: "fst fs = [] \<Longrightarrow> tieBreak fs"
  by (simp add: tieBreak_def)

lemma tieBreak_no_warnings: "snd fs = [] \<Longrightarrow> tieBreak fs"
  by (simp add: tieBreak_def)

lemma inside_weaken: "inside p fs \<Longrightarrow> startsWith p q \<Longrightarrow> inside q fs"
  unfolding inside_def by (blast intro: startsWith_trans)

lemma scoped_weaken: "scoped p step \<Longrightarrow> startsWith p q \<Longrightarrow> scoped q step"
  unfolding scoped_def by (blast intro: inside_weaken)

lemma alone_steps_concat:
  assumes "list_all appends steps"
  shows "alone (\<lambda>fs. foldl andThen (Inr fs) steps) = ([], []) \<or>
         alone (\<lambda>fs. foldl andThen (Inr fs) steps) =
           (concat (map (\<lambda>s. fst (alone s)) steps), concat (map (\<lambda>s. snd (alone s)) steps))"
proof (cases "foldl andThen (Inr ([], [])) steps")
  case (Inl e)
  then show ?thesis by (simp add: alone_def)
next
  case (Inr d)
  from alone_steps [OF assms Inr] have "d =
    (concat (map (\<lambda>s. fst (alone s)) steps), concat (map (\<lambda>s. snd (alone s)) steps))"
    by (simp add: prod_eq_iff)
  with Inr show ?thesis by (simp add: alone_def)
qed

lemma inside_steps:
  assumes "list_all appends steps" and "\<And>s. s \<in> set steps \<Longrightarrow> inside scope (alone s)"
  shows "inside scope (alone (\<lambda>fs. foldl andThen (Inr fs) steps))"
  using alone_steps_concat [OF assms(1)] assms(2)
  by (auto simp: inside_def)

lemma tieBreak_steps:
  assumes app: "list_all appends steps"
    and each: "list_all2 scoped scopes steps"
    and ap: "apart scopes"
  shows "tieBreak (alone (\<lambda>fs. foldl andThen (Inr fs) steps))"
proof -
  have len: "length scopes = length steps"
    using each by (rule list_all2_lengthD)
  have at: "scoped (scopes ! i) (steps ! i)" if "i < length steps" for i
    using each that len by (simp add: list_all2_conv_all_nth)
  have "tieBreak (concat (map (\<lambda>s. fst (alone s)) steps), concat (map (\<lambda>s. snd (alone s)) steps))"
    unfolding tieBreak_def
  proof (intro ballI impI)
    fix e wa
    assume "e \<in> set (fst (concat (map (\<lambda>s. fst (alone s)) steps),
                           concat (map (\<lambda>s. snd (alone s)) steps)))"
      and "wa \<in> set (snd (concat (map (\<lambda>s. fst (alone s)) steps),
                            concat (map (\<lambda>s. snd (alone s)) steps)))"
      and p: "paired e wa"
    then obtain s t where s: "s \<in> set steps" "e \<in> set (fst (alone s))"
      and t: "t \<in> set steps" "wa \<in> set (snd (alone t))"
      by auto
    from s(1) obtain i where i: "i < length steps" "s = steps ! i"
      by (auto simp: in_set_conv_nth)
    from t(1) obtain j where j: "j < length steps" "t = steps ! j"
      by (auto simp: in_set_conv_nth)
    have fe: "startsWith (field e) (scopes ! i)"
      using at [OF i(1)] s(2) i(2) by (auto simp: scoped_def inside_def)
    have fw: "startsWith (field wa) (scopes ! j)"
      using at [OF j(1)] t(2) j(2) by (auto simp: scoped_def inside_def)
    from paired_startsWith [OF p] fe have "startsWith (field wa) (scopes ! i)"
      by (rule startsWith_trans)
    with fw have "startsWith (scopes ! j) (scopes ! i) \<or> startsWith (scopes ! i) (scopes ! j)"
      by (rule startsWith_comparable)
    moreover have "scopes ! i \<in> set scopes" "scopes ! j \<in> set scopes"
      using i(1) j(1) len by simp_all
    moreover from ap have "startsWith p q \<Longrightarrow> p \<in> set scopes \<Longrightarrow> q \<in> set scopes \<Longrightarrow> p = q"
      for p q
      unfolding apart_def by blast
    ultimately have "scopes ! i = scopes ! j"
      by metis
    with ap i(1) j(1) len have "i = j"
      by (simp add: apart_def nth_eq_iff_index_eq)
    with i j have "s = t" by simp
    with at [OF i(1)] i(2) s(2) t(2) p show "rawPairing e wa"
      by (auto simp: scoped_def tieBreak_def)
  qed
  with alone_steps_concat [OF app] show ?thesis
    by (auto simp: tieBreak_def)
qed

lemma scoped_steps:
  assumes "list_all appends steps" and "list_all2 scoped scopes steps" and "apart scopes"
    and "list_all (\<lambda>p. startsWith p scope) scopes"
  shows "scoped scope (\<lambda>fs. foldl andThen (Inr fs) steps)"
proof -
  have "inside scope (alone s)" if "s \<in> set steps" for s
  proof -
    from that obtain i where i: "i < length steps" "s = steps ! i"
      by (auto simp: in_set_conv_nth)
    with assms(2) have "scoped (scopes ! i) s" and "i < length scopes"
      by (simp_all add: list_all2_conv_all_nth)
    moreover from this(2) assms(4) have "startsWith (scopes ! i) scope"
      by (simp add: list_all_length)
    ultimately show ?thesis by (auto simp: scoped_def intro: inside_weaken)
  qed
  with assms(1) have "inside scope (alone (\<lambda>fs. foldl andThen (Inr fs) steps))"
    by (rule inside_steps)
  with tieBreak_steps [OF assms(1-3)] show ?thesis by (simp add: scoped_def)
qed

lemma scoped_whenPresent: "scoped scope (check v) \<Longrightarrow> scoped scope (whenPresent v check)"
  by (simp add: scoped_def alone_whenPresent tieBreak_def inside_def)

subsection \<open>The field validators, one by one\<close>

lemma inside_validateName: "inside path (alone (validateName name path))"
  by (auto simp: inside_def alone_def validateName_def Let_def split: jv.splits)

lemma tieBreak_validateName: "tieBreak (alone (validateName name path))"
  by (auto simp: tieBreak_def paired_def rawPairing_def alone_def validateName_def Let_def
      split: jv.splits)

lemma inside_validatePhone: "inside path (alone (validatePhone phone path))"
  by (auto simp: inside_def alone_def validatePhone_def Let_def split: jv.splits)

lemma tieBreak_validatePhone: "tieBreak (alone (validatePhone phone path))"
  by (auto simp: tieBreak_def paired_def rawPairing_def alone_def validatePhone_def Let_def
      split: jv.splits)

lemma inside_validateAddress: "inside path (alone (validateAddress address path))"
  by (auto simp: inside_def alone_def validateAddress_def Let_def)

lemma tieBreak_validateAddress: "tieBreak (alone (validateAddress address path))"
  by (auto simp: tieBreak_def paired_def alone_def validateAddress_def Let_def)

lemma inside_validateEmail: "inside path (alone (validateEmail email path))"
  by (auto simp: inside_def alone_def validateEmail_def Let_def split: jv.splits)

lemma tieBreak_validateEmail: "tieBreak (alone (validateEmail email path))"
  using testEmails_valid
  by (auto simp: tieBreak_def paired_def alone_def validateEmail_def Let_def split: jv.splits)

lemma inside_validatePerson: "inside (path @ ''.'') (alone (validatePerson person path))"
  by (auto simp: inside_def alone_def validatePerson_def Let_def startsWith_def)

lemma tieBreak_validatePerson: "tieBreak (alone (validatePerson person path))"
  by (auto simp: tieBreak_def paired_def alone_def validatePerson_def Let_def startsWith_def)

lemma alone_errorUnlessIP:
  "alone (errorUnlessIP ip f m) = ([], []) \<or>
   alone (errorUnlessIP ip f m) = ([\<lparr>field = f, message = m, code = Some FIELD_VALIDATION_ERROR\<rparr>], [])"
  by (cases "isValidIP ip") (auto simp: alone_def errorUnlessIP_def push_defs)

lemma alone_warnUnlessIP:
  "alone (warnUnlessIP ip f) = ([], []) \<or>
   alone (warnUnlessIP ip f) =
     ([], [\<lparr>field = f, message = ''Invalid IP address format'', code = None\<rparr>])"
  by (cases "isValidIP ip") (auto simp: alone_def warnUnlessIP_def push_defs)

lemma scoped_warnUnlessIP: "scoped f (warnUnlessIP ip f)"
  using alone_warnUnlessIP [of ip f] by (auto simp: scoped_def tieBreak_def inside_def)

lemma alone_pure:
  "alone (\<lambda>fs. Inr (pushWarningIf b f m c fs)) =
     ([], if b then [\<lparr>field = f, message = m, code = c\<rparr>] else [])"
  "alone (\<lambda>fs. Inr (pushErrorIf b f m c' fs)) =
     (if b then [\<lparr>field = f, message = m, code = Some c'\<rparr>] else [], [])"
  by (simp_all add: alone_def push_defs)

lemma scoped_validateDevice: "scoped path (validateDevice device path)"
proof -
  let ?steps = "[whenPresent (get device ''ip'')
          (\<lambda>ip. errorUnlessIP ip (path @ ''.ip'') ''Invalid IP address format''),
        whenPresent (get device ''true_ip'')
          (\<lambda>ip. errorUnlessIP ip (path @ ''.true_ip'') ''Invalid true_ip address format''),
        (\<lambda>fs. Inr (pushWarningIf
                     (get device ''battery_level'' \<noteq> JUndefined \<and>
                      (jsLess (get device ''battery_level'') 0 \<or>
                       jsGreater (get device ''battery_level'') 100))
                     (path @ ''.battery_level'') ''Battery level should be between 0 and 100''
                     None fs)),
        (\<lambda>fs. Inr (pushWarningIf
                     (truthy (get device ''is_emulator'') \<or> truthy (get device ''is_virtual_env''))
                     path ''Virtual environment or emulator detected'' None fs)),
        (\<lambda>fs. Inr (pushWarningIf (truthy (get device ''is_rooted''))
                     path ''Rooted/jailbroken device detected'' None fs))]"
  have app: "list_all appends ?steps"
    by (simp add: appends_whenPresent appends_errorUnlessIP appends_pure)
  have e: "field e \<in> {path @ ''.ip'', path @ ''.true_ip''}"
    if "s \<in> set ?steps" "e \<in> set (fst (alone s))" for s e
    using that
      alone_errorUnlessIP [of "get device ''ip''" "path @ ''.ip''" "''Invalid IP address format''"]
      alone_errorUnlessIP [of "get device ''true_ip''" "path @ ''.true_ip''"
                              "''Invalid true_ip address format''"]
    by (auto simp: alone_whenPresent alone_pure split: if_splits)
  have w: "field wa \<in> {path @ ''.battery_level'', path}"
    if "s \<in> set ?steps" "wa \<in> set (snd (alone s))" for s wa
    using that
      alone_errorUnlessIP [of "get device ''ip''" "path @ ''.ip''" "''Invalid IP address format''"]
      alone_errorUnlessIP [of "get device ''true_ip''" "path @ ''.true_ip''"
                              "''Invalid true_ip address format''"]
    by (auto simp: alone_whenPresent alone_pure split: if_splits)
  let ?all = "(concat (map (\<lambda>s. fst (alone s)) ?steps), concat (map (\<lambda>s. snd (alone s)) ?steps))"
  have "tieBreak ?all"
    unfolding tieBreak_def
  proof (intro ballI impI)
    fix x wa
    assume "x \<in> set (fst ?all)" "wa \<in> set (snd ?all)" and p: "paired x wa"
    then obtain s t where "s \<in> set ?steps" "x \<in> set (fst (alone s))"
      and "t \<in> set ?steps" "wa \<in> set (snd (alone t))"
      unfolding fst_conv snd_conv set_concat set_map by blast
    with e [of s x] w [of t wa]
    have "field x \<in> {path @ ''.ip'', path @ ''.true_ip''}"
      and "field wa \<in> {path @ ''.battery_level'', path}"
      by blast+
    with p show "rawPairing x wa"
      by (auto simp: paired_def startsWith_def)
  qed
  moreover have "inside path ?all"
    unfolding inside_def
  proof (intro ballI)
    fix f
    assume "f \<in> set (fst ?all) \<union> set (snd ?all)"
    then obtain s where "s \<in> set ?steps" "f \<in> set (fst (alone s)) \<or> f \<in> set (snd (alone s))"
      unfolding fst_conv snd_conv set_concat set_map by blast
    with e [of s f] w [of s f]
    have "field f \<in> {path @ ''.ip'', path @ ''.true_ip'', path @ ''.battery_level'', path}"
      by blast
    then show "startsWith (field f) path" by auto
  qed
  ultimately have "scoped path (\<lambda>fs. foldl andThen (Inr fs) ?steps)"
    using alone_steps_concat [OF app]
    by (auto simp: scoped_def tieBreak_def inside_def)
  moreover have "validateDevice device path = (\<lambda>fs. foldl andThen (Inr fs) ?steps)"
    by (rule ext) (simp add: validateDevice_def)
  ultimately show ?thesis by simp
qed

lemma scoped_validatePersonalIdentifier:
  "scoped (path @ ''.'') (validatePersonalIdentifier identifier path)"
proof (cases "validatePersonalIdentifier identifier path ([], [])")
  case (Inl e)
  then show ?thesis by (simp add: scoped_def alone_def tieBreak_def inside_def)
next
  case (Inr d)
  let ?cpf = "\<lambda>fs. if get identifier ''type'' = JStr ''CPF'' \<and> truthy (get identifier ''value'')
                   then (case isValidCPF (get identifier ''value'') of
                           Inl e \<Rightarrow> Inl e
                         | Inr ok \<Rightarrow> Inr (pushWarningIf (\<not> ok) (path @ ''.value'')
                                            ''CPF format appears invalid'' None fs))
                   else Inr fs"
  let ?issue = "\<lambda>fs. Inr (pushWarningIf
                         (truthy (get identifier ''issue_date'') \<and>
                          \<not> matches dateRegex (jsToString (get identifier ''issue_date'')))
                         (path @ ''.issue_date'') ''Issue date should be in YYYY-MM-DD format''
                         None fs)"
  let ?expiry = "\<lambda>fs. Inr (pushWarningIf
                         (truthy (get identifier ''expiry_date'') \<and>
                          \<not> matches dateRegex (jsToString (get identifier ''expiry_date'')))
                         (path @ ''.expiry_date'') ''Expiry date should be in YYYY-MM-DD format''
                         None fs)"
  let ?steps = "[?cpf, ?issue, ?expiry]"
  let ?start = "pushErrorIf (\<not> truthy (get identifier ''value''))
                 (path @ ''.value'') ''Identifier value is required'' MISSING_REQUIRED_FIELD
                 (pushErrorIf (\<not> truthy (get identifier ''type''))
                 (path @ ''.type'') ''Identifier type is required'' MISSING_REQUIRED_FIELD ([], []))"
  from Inr have run: "foldl andThen (Inr ?start) ?steps = Inr d"
    by (simp add: validatePersonalIdentifier_def Let_def)
  have a: "list_all appends ?steps"
    by (simp add: appends_cpf appends_pure)
  have cpf: "snd (alone ?cpf) = [] \<or>
             (truthy (get identifier ''value'') \<and>
              snd (alone ?cpf) = [\<lparr>field = path @ ''.value'',
                                    message = ''CPF format appears invalid'', code = None\<rparr>])"
    by (cases "isValidCPF (get identifier ''value'')") (auto simp: alone_def push_defs)
  from alone_steps [OF a run] have
    errs: "fst d = fst ?start @ concat (map (\<lambda>s. fst (alone s)) ?steps)" and
    warns: "snd d = snd ?start @ concat (map (\<lambda>s. snd (alone s)) ?steps)"
    by simp_all
  have none: "concat (map (\<lambda>s. fst (alone s)) ?steps) = []"
    by (cases "isValidCPF (get identifier ''value'')") (auto simp: alone_def push_defs)
  have e: "field x = path @ ''.type'' \<or> (field x = path @ ''.value'' \<and> \<not> truthy (get identifier ''value''))"
    if "x \<in> set (fst d)" for x
    using that unfolding errs none by (auto split: if_splits)
  have w: "(field wa = path @ ''.value'' \<and> truthy (get identifier ''value'')) \<or>
           field wa = path @ ''.issue_date'' \<or> field wa = path @ ''.expiry_date''"
    if "wa \<in> set (snd d)" for wa
    using that cpf unfolding warns by (auto simp: alone_pure split: if_splits)
  have "tieBreak d"
    unfolding tieBreak_def
  proof (intro ballI impI)
    fix x wa
    assume "x \<in> set (fst d)" "wa \<in> set (snd d)" "paired x wa"
    with e [of x] w [of wa] show "rawPairing x wa"
      by (auto simp: paired_def startsWith_def)
  qed
  moreover have "inside (path @ ''.'') d"
    unfolding inside_def
  proof (intro ballI)
    fix f
    assume "f \<in> set (fst d) \<union> set (snd d)"
    with e [of f] w [of f] show "startsWith (field f) (path @ ''.'')"
      by (auto simp: startsWith_def)
  qed
  ultimately show ?thesis using Inr by (simp add: scoped_def alone_def)
qed

lemma scoped_validateIpHistory: "scoped ''account.ip_history['' (validateIpHistory history)"
proof (cases history)
  case (JArr ips)
  let ?steps = "map (\<lambda>index. warnUnlessIP (ips ! index)
                            (''account.ip_history['' @ show_nat index @ '']''))
               [0..<length ips]"
  have app: "list_all appends ?steps"
    by (simp add: list_all_iff appends_warnUnlessIP)
  have each: "fst (alone s) = [] \<and> inside ''account.ip_history['' (alone s)"
    if "s \<in> set ?steps" for s
  proof -
    from that obtain index where "s = warnUnlessIP (ips ! index)
                            (''account.ip_history['' @ show_nat index @ '']'')"
      by auto
    then have s: "s = warnUnlessIP (ips ! index) (''account.ip_history['' @ (show_nat index @ '']''))"
      by simp
    have "scoped (''account.ip_history['' @ (show_nat index @ '']'')) s"
      unfolding s by (rule scoped_warnUnlessIP)
    then have "scoped ''account.ip_history['' s"
      by (rule scoped_weaken) (rule startsWith_append)
    moreover have "fst (alone s) = []"
      using alone_warnUnlessIP [of "ips ! index" "''account.ip_history['' @ (show_nat index @ '']'')"]
      unfolding s by auto
    ultimately show ?thesis
      by (simp add: scoped_def)
  qed
  then have "concat (map (\<lambda>s. fst (alone s)) ?steps) = []"
    by simp
  with alone_steps_concat [OF app]
  have "fst (alone (\<lambda>fs. foldl andThen (Inr fs) ?steps)) = []"
    by auto
  then have "tieBreak (alone (\<lambda>fs. foldl andThen (Inr fs) ?steps))"
    by (rule tieBreak_no_errors)
  moreover from app each have "inside ''account.ip_history['' (alone (\<lambda>fs. foldl andThen (Inr fs) ?steps))"
    by (intro inside_steps) simp_all
  moreover have "validateIpHistory history = (\<lambda>fs. foldl andThen (Inr fs) ?steps)"
    using JArr by (intro ext) (simp add: validateIpHistory_def)
  ultimately show ?thesis by (simp add: scoped_def)
qed (simp_all add: scoped_def alone_def validateIpHistory_def tieBreak_def inside_def)

subsection \<open>The groups and the whole pass\<close>

lemma scoped_validateName: "scoped path (validateName name path)"
  by (simp add: scoped_def tieBreak_validateName inside_validateName)

lemma scoped_validateEmail: "scoped path (validateEmail email path)"
  by (simp add: scoped_def tieBreak_validateEmail inside_validateEmail)

lemma scoped_validatePhone: "scoped path (validatePhone phone path)"
  by (simp add: scoped_def tieBreak_validatePhone inside_validatePhone)

lemma scoped_validateAddress: "scoped path (validateAddress address path)"
  by (simp add: scoped_def tieBreak_validateAddress inside_validateAddress)

lemma scoped_validatePerson: "scoped (path @ ''.'') (validatePerson person path)"
  by (simp add: scoped_def tieBreak_validatePerson inside_validatePerson)

lemma scoped_warning: "scoped f (\<lambda>fs. Inr (pushWarningIf b f m c fs))"
  by (simp add: scoped_def alone_pure tieBreak_def inside_def)

lemma scoped_error: "scoped f (\<lambda>fs. Inr (pushErrorIf b f m c fs))"
  by (simp add: scoped_def alone_pure tieBreak_def inside_def)

lemma scoped_action:
  "scoped ''action''
     (\<lambda>fs. Inr (if b then pushError ''action'' m c fs else pushErrorIf b' ''action.type'' m' c' fs))"
  by (simp add: scoped_def alone_def tieBreak_def inside_def startsWith_def)

lemma apart_account:
  "apart [''account.name'', ''account.email'', ''account.phone'', ''account.address'',
          ''account.person.'', ''account.personal_identifier.'', ''account.created'',
          ''account.ip_created'', ''account.ip_last'', ''account.ip_history['']"
  by code_simp

lemma scoped_validateAccountGroup: "scoped ''account.'' (validateAccountGroup account)"
  unfolding validateAccountGroup_def
proof (rule scoped_steps)
  show "apart [''account.name'', ''account.email'', ''account.phone'', ''account.address'',
          ''account.person.'', ''account.personal_identifier.'', ''account.created'',
          ''account.ip_created'', ''account.ip_last'', ''account.ip_history['']"
    by (rule apart_account)
  show "list_all (\<lambda>p. startsWith p ''account.'')
         [''account.name'', ''account.email'', ''account.phone'', ''account.address'',
          ''account.person.'', ''account.personal_identifier.'', ''account.created'',
          ''account.ip_created'', ''account.ip_last'', ''account.ip_history['']"
    by code_simp
  show "list_all appends
       [whenPresent (get account ''name'') (\<lambda>v. validateName v ''account.name''),
        whenPresent (get account ''email'') (\<lambda>v. validateEmail v ''account.email''),
        whenPresent (get account ''phone'') (\<lambda>v. validatePhone v ''account.phone''),
        whenPresent (get account ''address'') (\<lambda>v. validateAddress v ''account.address''),
        whenPresent (get account ''person'') (\<lambda>v. validatePerson v ''account.person''),
        whenPresent (get account ''personal_identifier'')
          (\<lambda>v. validatePersonalIdentifier v ''account.personal_identifier''),
        (\<lambda>fs. Inr (pushWarningIf
                     (truthy (get account ''created'') \<and>
                      \<not> createdRegex_test (jsToString (get account ''created'')))
                     ''account.created'' ''Created date should be in YYYY-MM-DD HH:MM:SS format''
                     None fs)),
        whenPresent (get account ''ip_created'') (\<lambda>ip. warnUnlessIP ip ''account.ip_created''),
        whenPresent (get account ''ip_last'') (\<lambda>ip. warnUnlessIP ip ''account.ip_last''),
        whenPresent (get account ''ip_history'') validateIpHistory]"
    by (simp add: appends_whenPresent appends_validateName appends_validateEmail
        appends_validatePhone appends_validateAddress appends_validatePerson
        appends_validatePersonalIdentifier appends_warnUnlessIP appends_validateIpHistory
        appends_pure)
  have person: "scoped ''account.person.'' (validatePerson v ''account.person'')" for v
    using scoped_validatePerson [of "''account.person''" v] by simp
  have pi: "scoped ''account.personal_identifier.''
              (validatePersonalIdentifier v ''account.personal_identifier'')" for v
    using scoped_validatePersonalIdentifier [of "''account.personal_identifier''" v] by simp
  show "list_all2 scoped
         [''account.name'', ''account.email'', ''account.phone'', ''account.address'',
          ''account.person.'', ''account.personal_identifier.'', ''account.created'',
          ''account.ip_created'', ''account.ip_last'', ''account.ip_history['']
       [whenPresent (get account ''name'') (\<lambda>v. validateName v ''account.name''),
        whenPresent (get account ''email'') (\<lambda>v. validateEmail v ''account.email''),
        whenPresent (get account ''phone'') (\<lambda>v. validatePhone v ''account.phone''),
        whenPresent (get account ''address'') (\<lambda>v. validateAddress v ''account.address''),
        whenPresent (get account ''person'') (\<lambda>v. validatePerson v ''account.person''),
        whenPresent (get account ''personal_identifier'')
          (\<lambda>v. validatePersonalIdentifier v ''account.personal_identifier''),
        (\<lambda>fs. Inr (pushWarningIf
                     (truthy (get account ''created'') \<and>
                      \<not> createdRegex_test (jsToString (get account ''created'')))
                     ''account.created'' ''Created date should be in YYYY-MM-DD HH:MM:SS format''
                     None fs)),
        whenPresent (get account ''ip_created'') (\<lambda>ip. warnUnlessIP ip ''account.ip_created''),
        whenPresent (get account ''ip_last'') (\<lambda>ip. warnUnlessIP ip ''account.ip_last''),
        whenPresent (get account ''ip_history'') validateIpHistory]"
    by (intro list_all2_Cons [THEN iffD2] conjI scoped_whenPresent scoped_validateName
          scoped_validateEmail scoped_validatePhone scoped_validateAddress person pi
          scoped_warning scoped_warnUnlessIP scoped_validateIpHistory)
       simp
qed

lemma apart_suffixes: "apart ps \<Longrightarrow> apart (map (\<lambda>p. g @ p) ps)"
  unfolding apart_def by (auto simp: distinct_map inj_on_def)

lemma scoped_validateBillingShippingGroup:
  "scoped (groupName @ ''.'') (validateBillingShippingGroup grp groupName)"
  unfolding validateBillingShippingGroup_def
proof (rule scoped_steps)
  have "apart [''.name'', ''.email'', ''.phone'', ''.address'']"
    by code_simp
  from apart_suffixes [OF this, of groupName]
  show "apart [groupName @ ''.name'', groupName @ ''.email'', groupName @ ''.phone'',
               groupName @ ''.address'']"
    by simp
  show "list_all (\<lambda>p. startsWith p (groupName @ ''.''))
          [groupName @ ''.name'', groupName @ ''.email'', groupName @ ''.phone'',
           groupName @ ''.address'']"
    by (simp add: startsWith_def)
  show "list_all appends
       [whenPresent (get grp ''name'') (\<lambda>v. validateName v (groupName @ ''.name'')),
        whenPresent (get grp ''email'') (\<lambda>v. validateEmail v (groupName @ ''.email'')),
        whenPresent (get grp ''phone'') (\<lambda>v. validatePhone v (groupName @ ''.phone'')),
        whenPresent (get grp ''address'') (\<lambda>v. validateAddress v (groupName @ ''.address''))]"
    by (simp add: appends_whenPresent appends_validateName appends_validateEmail
        appends_validatePhone appends_validateAddress)
  show "list_all2 scoped
          [groupName @ ''.name'', groupName @ ''.email'', groupName @ ''.phone'',
           groupName @ ''.address'']
       [whenPresent (get grp ''name'') (\<lambda>v. validateName v (groupName @ ''.name'')),
        whenPresent (get grp ''email'') (\<lambda>v. validateEmail v (groupName @ ''.email'')),
        whenPresent (get grp ''phone'') (\<lambda>v. validatePhone v (groupName @ ''.phone'')),
        whenPresent (get grp ''address'') (\<lambda>v. validateAddress v (groupName @ ''.address''))]"
    by (intro list_all2_Cons [THEN iffD2] conjI scoped_whenPresent scoped_validateName
          scoped_validateEmail scoped_validatePhone scoped_validateAddress)
       simp
qed

lemma apart_request:
  "apart [''action'', ''data'', ''name'', ''email'', ''phone'', ''address'', ''device'',
          ''person.'', ''personal_identifier.'', ''account.'', ''billing.'', ''shipping.'']"
  by code_simp

lemma scoped_validationSteps:
  "list_all2 scoped
     [''action'', ''data'', ''name'', ''email'', ''phone'', ''address'', ''device'',
      ''person.'', ''personal_identifier.'', ''account.'', ''billing.'', ''shipping.'']
     (validationSteps request)"
proof -
  have person: "scoped ''person.'' (validatePerson v ''person'')" for v
    using scoped_validatePerson [of "''person''" v] by simp
  have pi: "scoped ''personal_identifier.''
              (validatePersonalIdentifier v ''personal_identifier'')" for v
    using scoped_validatePersonalIdentifier [of "''personal_identifier''" v] by simp
  have billing: "scoped ''billing.'' (validateBillingShippingGroup v ''billing'')" for v
    using scoped_validateBillingShippingGroup [of "''billing''" v] by simp
  have shipping: "scoped ''shipping.'' (validateBillingShippingGroup v ''shipping'')" for v
    using scoped_validateBillingShippingGroup [of "''shipping''" v] by simp
  show ?thesis
    unfolding validationSteps_def
    by (intro list_all2_Cons [THEN iffD2] conjI scoped_whenPresent scoped_validateName
          scoped_validateEmail scoped_validatePhone scoped_validateAddress
          scoped_validateDevice person pi scoped_validateAccountGroup billing shipping
          scoped_action scoped_error)
       simp
qed

lemma validateRequest_tieBreak:
  assumes "RequestValidator_validateRequest request = Inr report"
  shows "tieBreak (errors report, warnings report)"
proof -
  from assms obtain fs where run: "foldl andThen (Inr ([], [])) (validationSteps request) = Inr fs"
    and report: "errors report = fst fs" "warnings report = snd fs"
    by (auto simp: RequestValidator_validateRequest_def split: sum.splits)
  from run have "alone (\<lambda>fs. foldl andThen (Inr fs) (validationSteps request)) = fs"
    by (simp add: alone_def)
  with tieBreak_steps [OF appends_validationSteps scoped_validationSteps apart_request, of request]
  show ?thesis by (simp add: report)
qed

text \<open>
  C5, as the code has it.  In the report of a validation pass a Warning is never paired
  with an Error, that is, reported for the Error's field or for a sub-field of it, with one
  exception: when \<^verbatim>\<open>raw\<close> is combined with other fields of a phone or of a name, the Error
  (raw with other fields, code 1024) is reported for the field and \<^verbatim>\<open>raw\<close> is still checked by
  itself, so that the Warning that it is too short can stand beside the Error, at
  \<^verbatim>\<open>path.raw\<close>.  Such a phone yields exactly the one Error and, exactly when \<^verbatim>\<open>raw\<close> holds fewer
  than 7 digits, the Warning; such a name yields exactly the one Error and, exactly when the
  trimmed \<^verbatim>\<open>raw\<close> is shorter than 2 characters, the Warning.  Without \<^verbatim>\<open>raw\<close>, a phone that
  lacks its country code or its number yields the one Error (code 1015) and no Warning.  In
  particular \<^verbatim>\<open>{raw: "555-1234", number: "5551234"}\<close> yields exactly one Error, code 1024, and
  no Warning.
\<close>

theorem validation_tie_break:
  "(RequestValidator_validateRequest request = Inr report \<longrightarrow>
      (\<forall>e \<in> set (errors report). \<forall>wa \<in> set (warnings report).
         paired e wa \<longrightarrow> rawPairing e wa)) \<and>
   (get phone ''raw'' = JStr raw \<and> raw \<noteq> [] \<and>
    (truthy (get phone ''country_code'') \<or> truthy (get phone ''number'') \<or>
     truthy (get phone ''extension'')) \<longrightarrow>
      validatePhone phone path (es, ws) =
        Inr (es @ [\<lparr>field = path, message = ''Cannot use raw with other phone fields'',
                    code = Some 1024\<rparr>],
             ws @ (if length (filter isDigit raw) < 7
                   then [\<lparr>field = path @ ''.raw'', message = ''Phone number appears too short'',
                          code = None\<rparr>]
                   else []))) \<and>
   (get name ''raw'' = JStr nraw \<and> nraw \<noteq> [] \<and>
    (truthy (get name ''first_name'') \<or> truthy (get name ''last_name'') \<or>
     truthy (get name ''middle_name'') \<or> truthy (get name ''prefix'') \<or>
     truthy (get name ''suffix'')) \<longrightarrow>
      validateName name path (es, ws) =
        Inr (es @ [\<lparr>field = path, message = ''Cannot use raw with other name fields'',
                    code = Some 1024\<rparr>],
             ws @ (if length (trim nraw) < 2
                   then [\<lparr>field = path @ ''.raw'', message = ''Name appears too short'',
                          code = None\<rparr>]
                   else []))) \<and>
   (\<not> truthy (get phone ''raw'') \<and>
    (\<not> truthy (get phone ''country_code'') \<or> \<not> truthy (get phone ''number'')) \<longrightarrow>
      validatePhone phone path (es, ws) =
        Inr (es @ [\<lparr>field = path,
                    message = ''Phone must have either raw or both country_code and number'',
                    code = Some 1015\<rparr>], ws)) \<and>
   validatePhone (JObj [(''raw'', JStr ''555-1234''), (''number'', JStr ''5551234'')]) path ([], []) =
     Inr ([\<lparr>field = path, message = ''Cannot use raw with other phone fields'',
            code = Some 1024\<rparr>], [])"
proof (intro conjI impI)
  assume "RequestValidator_validateRequest request = Inr report"
  then have "tieBreak (errors report, warnings report)"
    by (rule validateRequest_tieBreak)
  then show "\<forall>e \<in> set (errors report). \<forall>wa \<in> set (warnings report).
         paired e wa \<longrightarrow> rawPairing e wa"
    by (simp add: tieBreak_def)
next
  assume "get phone ''raw'' = JStr raw \<and> raw \<noteq> [] \<and>
    (truthy (get phone ''country_code'') \<or> truthy (get phone ''number'') \<or>
     truthy (get phone ''extension''))"
  then show "validatePhone phone path (es, ws) =
        Inr (es @ [\<lparr>field = path, message = ''Cannot use raw with other phone fields'',
                    code = Some 1024\<rparr>],
             ws @ (if length (filter isDigit raw) < 7
                   then [\<lparr>field = path @ ''.raw'', message = ''Phone number appears too short'',
                          code = None\<rparr>]
                   else []))"
    by (simp add: validatePhone_def Let_def prod_eq_iff RAW_WITH_OTHER_FIELDS_def)
next
  assume "get name ''raw'' = JStr nraw \<and> nraw \<noteq> [] \<and>
    (truthy (get name ''first_name'') \<or> truthy (get name ''last_name'') \<or>
     truthy (get name ''middle_name'') \<or> truthy (get name ''prefix'') \<or>
     truthy (get name ''suffix''))"
  then show "validateName name path (es, ws) =
        Inr (es @ [\<lparr>field = path, message = ''Cannot use raw with other name fields'',
                    code = Some 1024\<rparr>],
             ws @ (if length (trim nraw) < 2
                   then [\<lparr>field = path @ ''.raw'', message = ''Name appears too short'',
                          code = None\<rparr>]
                   else []))"
    by (simp add: validateName_def Let_def prod_eq_iff RAW_WITH_OTHER_FIELDS_def)
next
  assume "\<not> truthy (get phone ''raw'') \<and>
    (\<not> truthy (get phone ''country_code'') \<or> \<not> truthy (get phone ''number''))"
  then show "validatePhone phone path (es, ws) =
        Inr (es @ [\<lparr>field = path,
                    message = ''Phone must have either raw or both country_code and number'',
                    code = Some 1015\<rparr>], ws)"
    by (simp add: validatePhone_def Let_def prod_eq_iff FIELD_VALIDATION_ERROR_def)
next
  show "validatePhone (JObj [(''raw'', JStr ''555-1234''), (''number'', JStr ''5551234'')]) path
          ([], []) =
     Inr ([\<lparr>field = path, message = ''Cannot use raw with other phone fields'',
            code = Some 1024\<rparr>], [])"
    by (simp add: validatePhone_def Let_def prod_eq_iff RAW_WITH_OTHER_FIELDS_def get.simps
        isDigit_def)
qed

lemma paired_report:
  "RequestValidator_validateRequest
     (JObj [(''action'', JObj [(''type'', JStr ''purchase'')]),
            (''phone'', JObj [(''raw'', JStr ''555''), (''number'', JStr ''5551234'')]),
            (''address'', JObj [(''raw'', JStr ''1 Main St''), (''country'', JStr ''USA'')]),
            (''billing'', JObj [(''phone'', JObj [(''country_code'', JStr ''12345'')])])]) =
   Inr \<lparr>valid = False,
        errors = [\<lparr>field = ''phone'', message = ''Cannot use raw with other phone fields'',
                   code = Some 1024\<rparr>,
                  \<lparr>field = ''address'', message = ''Cannot use raw with other address fields'',
                   code = Some 1024\<rparr>,
                  \<lparr>field = ''billing.phone'',
                   message = ''Phone must have either raw or both country_code and number'',
                   code = Some 1015\<rparr>],
        warnings = [\<lparr>field = ''phone.raw'', message = ''Phone number appears too short'',
                     code = None\<rparr>]\<rparr>"
  by code_simp

theorem validation_tie_break_witness:
  "RequestValidator_validateRequest
     (JObj [(''action'', JObj [(''type'', JStr ''purchase'')]),
            (''phone'', JObj [(''raw'', JStr ''555''), (''number'', JStr ''5551234'')]),
            (''address'', JObj [(''raw'', JStr ''1 Main St''), (''country'', JStr ''USA'')]),
            (''billing'', JObj [(''phone'', JObj [(''country_code'', JStr ''12345'')])])]) =
   Inr \<lparr>valid = False,
        errors = [\<lparr>field = ''phone'', message = ''Cannot use raw with other phone fields'',
                   code = Some 1024\<rparr>,
                  \<lparr>field = ''address'', message = ''Cannot use raw with other address fields'',
                   code = Some 1024\<rparr>,
                  \<lparr>field = ''billing.phone'',
                   message = ''Phone must have either raw or both country_code and number'',
                   code = Some 1015\<rparr>],
        warnings = [\<lparr>field = ''phone.raw'', message = ''Phone number appears too short'',
                     code = None\<rparr>]\<rparr> \<and>
   rawPairing
     \<lparr>field = ''phone'', message = ''Cannot use raw with other phone fields'', code = Some 1024\<rparr>
     \<lparr>field = ''phone.raw'', message = ''Phone number appears too short'', code = None\<rparr> \<and>
   validatePhone (JObj [(''raw'', JStr ''555-1234''), (''extension'', JNum 12)]) ''billing.phone''
     ([], []) =
     Inr ([\<lparr>field = ''billing.phone'', message = ''Cannot use raw with other phone fields'',
            code = Some 1024\<rparr>], []) \<and>
   validateName (JObj [(''raw'', JStr ''J''), (''first_name'', JStr ''Jo'')]) ''name'' ([], []) =
     Inr ([\<lparr>field = ''name'', message = ''Cannot use raw with other name fields'',
            code = Some 1024\<rparr>],
          [\<lparr>field = ''name.raw'', message = ''Name appears too short'', code = None\<rparr>]) \<and>
   validatePhone (JObj [(''number'', JStr ''5551234'')]) ''phone'' ([], []) =
     Inr ([\<lparr>field = ''phone'',
            message = ''Phone must have either raw or both country_code and number'',
            code = Some 1015\<rparr>], [])"
proof -
  let ?request = "JObj [(''action'', JObj [(''type'', JStr ''purchase'')]),
            (''phone'', JObj [(''raw'', JStr ''555''), (''number'', JStr ''5551234'')]),
            (''address'', JObj [(''raw'', JStr ''1 Main St''), (''country'', JStr ''USA'')]),
            (''billing'', JObj [(''phone'', JObj [(''country_code'', JStr ''12345'')])])]"
  let ?e = "\<lparr>field = ''phone'', message = ''Cannot use raw with other phone fields'',
             code = Some 1024\<rparr>"
  let ?wa = "\<lparr>field = ''phone.raw'', message = ''Phone number appears too short'',
              code = None\<rparr>"
  let ?report = "\<lparr>valid = False,
        errors = [?e,
                  \<lparr>field = ''address'', message = ''Cannot use raw with other address fields'',
                   code = Some 1024\<rparr>,
                  \<lparr>field = ''billing.phone'',
                   message = ''Phone must have either raw or both country_code and number'',
                   code = Some 1015\<rparr>],
        warnings = [?wa]\<rparr>"
  let ?p = "JObj [(''raw'', JStr ''555-1234''), (''extension'', JNum 12)]"
  let ?n = "JObj [(''raw'', JStr ''J''), (''first_name'', JStr ''Jo'')]"
  let ?q = "JObj [(''number'', JStr ''5551234'')]"
  have h0: "RequestValidator_validateRequest ?request = Inr ?report"
    by (rule paired_report)
  have h1: "get ?p ''raw'' = JStr ''555-1234'' \<and> ''555-1234'' \<noteq> [] \<and>
    (truthy (get ?p ''country_code'') \<or> truthy (get ?p ''number'') \<or>
     truthy (get ?p ''extension''))"
    by (simp add: get.simps)
  have h2: "get ?n ''raw'' = JStr ''J'' \<and> ''J'' \<noteq> [] \<and>
    (truthy (get ?n ''first_name'') \<or> truthy (get ?n ''last_name'') \<or>
     truthy (get ?n ''middle_name'') \<or> truthy (get ?n ''prefix'') \<or>
     truthy (get ?n ''suffix''))"
    by (simp add: get.simps)
  have h3: "\<not> truthy (get ?q ''raw'') \<and>
    (\<not> truthy (get ?q ''country_code'') \<or> \<not> truthy (get ?q ''number''))"
    by (simp add: get.simps)
  have short: "length (trim ''J'') < 2"
    by code_simp
  from validation_tie_break [where request = ?request and report = ?report] h0
  have "\<forall>e \<in> set (errors ?report). \<forall>wa \<in> set (warnings ?report).
          paired e wa \<longrightarrow> rawPairing e wa"
    by blast
  moreover have "?e \<in> set (errors ?report)" "?wa \<in> set (warnings ?report)"
    by simp_all
  moreover have "paired ?e ?wa"
    by (simp add: paired_def startsWith_def)
  ultimately have a: "rawPairing ?e ?wa"
    by blast
  from validation_tie_break
         [where phone = ?p and raw = "''555-1234''" and path = "''billing.phone''"
            and es = "[]" and ws = "[]"] h1
  have b: "validatePhone ?p ''billing.phone'' ([], []) =
     Inr ([\<lparr>field = ''billing.phone'', message = ''Cannot use raw with other phone fields'',
            code = Some 1024\<rparr>], [])"
    by (simp add: isDigit_def)
  from validation_tie_break
         [where name = ?n and nraw = "''J''" and path = "''name''" and es = "[]" and ws = "[]"]
       h2 short
  have c: "validateName ?n ''name'' ([], []) =
     Inr ([\<lparr>field = ''name'', message = ''Cannot use raw with other name fields'',
            code = Some 1024\<rparr>],
          [\<lparr>field = ''name.raw'', message = ''Name appears too short'', code = None\<rparr>])"
    by simp
  from validation_tie_break
         [where phone = ?q and path = "''phone''" and es = "[]" and ws = "[]"] h3
  have d: "validatePhone ?q ''phone'' ([], []) =
     Inr ([\<lparr>field = ''phone'',
            message = ''Phone must have either raw or both country_code and number'',
            code = Some 1015\<rparr>], [])"
    by simp
  from h0 a b c d show ?thesis by blast
qed

text \<open>
  The claim as worded lets the Error suppress the Warning of the same sub-field.  The phone
  \<^verbatim>\<open>{raw: "555", number: "5551234"}\<close> refutes that: both are emitted.
\<close>

theorem validatePhone_tie_break_counterexample:
  "validatePhone (JObj [(''raw'', JStr ''555''), (''number'', JStr ''5551234'')]) ''phone'' ([], []) =
     Inr ([\<lparr>field = ''phone'', message = ''Cannot use raw with other phone fields'',
            code = Some 1024\<rparr>],
          [\<lparr>field = ''phone.raw'', message = ''Phone number appears too short'',
            code = None\<rparr>])"
  by (simp add: validatePhone_def Let_def prod_eq_iff RAW_WITH_OTHER_FIELDS_def get.simps
      isDigit_def)

section \<open>Validation in the score path\<close>















end
